theory Spec2Isabelle
  imports Main "HOL-Library.Multiset"
begin

section \<open>Backup and import of a SvelteMark workspace\<close>

text \<open>
  The code verified here is the TypeScript of \<^verbatim>\<open>BACKUP_IMPORT_ADAPTER_ANALYSIS.md\<close>:
  \<^verbatim>\<open>exportBackup\<close> and \<^verbatim>\<open>importBackup\<close> of \<^verbatim>\<open>appState.svelte.ts\<close>, and
  \<^verbatim>\<open>JSONAdapter.serialize\<close> / \<^verbatim>\<open>JSONAdapter.deserialize\<close> of
  \<^verbatim>\<open>src/lib/adapters/json-adapter.ts\<close>.
\<close>

subsection \<open>JSON values\<close>

text \<open>
  A value that \<^verbatim>\<open>JSON.parse\<close> can return. Numbers are the integers of the backup format
  (identifiers, the version); an object lists its members in the order of the text.
\<close>

datatype json =
    JNull
  | JBool bool
  | JNum int
  | JStr string
  | JArr "json list"
  | JObj "(string \<times> json) list"

text \<open>
  A JavaScript string that is handed to \<^verbatim>\<open>JSON.parse\<close> is represented by what
  \<^verbatim>\<open>JSON.parse\<close> makes of it: \<open>NotJSON\<close> is any text outside the JSON grammar, \<open>JSON v\<close> a
  text that denotes the value \<open>v\<close>. \<^verbatim>\<open>JSON.stringify\<close> writes a text that denotes the value
  it was given; its indentation argument changes the layout only.
\<close>

datatype jsonString = NotJSON | JSON json

text \<open>
  What the code can throw: the \<^verbatim>\<open>SyntaxError\<close> of \<^verbatim>\<open>JSON.parse\<close>, the
  \<^verbatim>\<open>TypeError\<close> of a property read on \<^verbatim>\<open>null\<close>, and \<^verbatim>\<open>new Error(message)\<close>.
\<close>

datatype error = SyntaxError | TypeError | Error string

definition JSON_parse :: "jsonString \<Rightarrow> error + json" where
  "JSON_parse s = (case s of NotJSON \<Rightarrow> Inl SyntaxError | JSON v \<Rightarrow> Inr v)"

definition JSON_stringify :: "json \<Rightarrow> jsonString" where
  "JSON_stringify v = JSON v"

text \<open>
  The own property \<open>k\<close> of a parsed value, \<open>None\<close> for \<^verbatim>\<open>undefined\<close>. Of a repeated key
  \<^verbatim>\<open>JSON.parse\<close> keeps the last occurrence. Only objects have own properties named
  \<^verbatim>\<open>folders\<close>, \<^verbatim>\<open>files\<close> or \<^verbatim>\<open>version\<close>, the keys read below.
\<close>

fun own_property :: "string \<Rightarrow> json \<Rightarrow> json option" where
  "own_property k (JObj kvs) = map_of (rev kvs) k"
| "own_property k v = None"

text \<open>The read \<^verbatim>\<open>backup.k\<close>: it throws on \<^verbatim>\<open>null\<close>.\<close>

definition member :: "json \<Rightarrow> string \<Rightarrow> error + json option" where
  "member backup k = (if backup = JNull then Inl TypeError else Inr (own_property k backup))"

text \<open>
  JavaScript's truthiness, as \<^verbatim>\<open>!x\<close> tests it: \<^verbatim>\<open>undefined\<close>, \<^verbatim>\<open>null\<close>,
  \<^verbatim>\<open>false\<close>, \<^verbatim>\<open>0\<close> and the empty string are falsy; every array and every object is
  truthy, the empty ones too.
\<close>

fun truthy :: "json option \<Rightarrow> bool" where
  "truthy None = False"
| "truthy (Some JNull) = False"
| "truthy (Some (JBool b)) = b"
| "truthy (Some (JNum n)) = (n \<noteq> 0)"
| "truthy (Some (JStr s)) = (s \<noteq> [])"
| "truthy (Some (JArr xs)) = True"
| "truthy (Some (JObj kvs)) = True"

subsection \<open>The JSON adapter\<close>

text \<open>
  \<^verbatim>\<open>
  async serialize(folders: any[], files: any[]): Promise<string> {
      const backup: BackupData = {
          version: 1,
          exportedAt: new Date().toISOString(),
          folders: folders,
          files: files
      };
      return JSON.stringify(backup, null, 2);
  }
  \<close>
  The reading of the clock is the parameter \<open>now\<close>.
\<close>

definition serialize :: "string \<Rightarrow> json list \<Rightarrow> json list \<Rightarrow> jsonString" where
  "serialize now folders files =
     JSON_stringify (JObj [(''version'', JNum 1), (''exportedAt'', JStr now),
                           (''folders'', JArr folders), (''files'', JArr files)])"

text \<open>
  \<^verbatim>\<open>
  async deserialize(data: string): Promise<BackupData> {
      const backup = JSON.parse(data);
      if (!backup.folders || !backup.files) {
          throw new Error('Invalid backup format');
      }
      return backup;
  }
  \<close>
  \<^verbatim>\<open>||\<close> reads \<^verbatim>\<open>backup.files\<close> only when \<^verbatim>\<open>backup.folders\<close> is truthy.
\<close>

definition deserialize :: "jsonString \<Rightarrow> error + json" where
  "deserialize data =
     (case JSON_parse data of
        Inl e \<Rightarrow> Inl e
      | Inr backup \<Rightarrow>
          (case member backup ''folders'' of
             Inl e \<Rightarrow> Inl e
           | Inr fo \<Rightarrow>
               if \<not> truthy fo then Inl (Error ''Invalid backup format'')
               else
                 (case member backup ''files'' of
                    Inl e \<Rightarrow> Inl e
                  | Inr fi \<Rightarrow>
                      if \<not> truthy fi then Inl (Error ''Invalid backup format'')
                      else Inr backup)))"

subsection \<open>The application state\<close>

text \<open>
  Folder and file records, with the fields of the backup format. The identifier is
  optional in the code (\<^verbatim>\<open>if (file.id)\<close>, \<^verbatim>\<open>files[0].id!\<close>): \<open>None\<close> is
  \<^verbatim>\<open>undefined\<close>. In \<open>parentId\<close> and \<open>folderId\<close>, \<open>None\<close> is \<^verbatim>\<open>null\<close>.
\<close>

record folder =
  folder_id :: "int option"
  name :: string
  parentId :: "int option"
  isOpen :: bool

record "file" =
  file_id :: "int option"
  folderId :: "int option"
  title :: string
  content :: string
  createdAt :: string
  updatedAt :: string

text \<open>
  The module-level variables of \<^verbatim>\<open>appState.svelte.ts\<close> that the two functions read and
  assign; \<open>repo\<close> is everything else the helper functions work on (the database).
\<close>

record 'r appState =
  folders :: "folder list"
  files :: "file list"
  activeFileId :: "int option"
  buffer :: string
  dirty :: bool
  repo :: 'r

text \<open>
  The JSON value of a record, as \<^verbatim>\<open>JSON.stringify\<close> writes it: a property whose value is
  \<^verbatim>\<open>undefined\<close> is left out, \<^verbatim>\<open>null\<close> is written.
\<close>

definition optional :: "string \<Rightarrow> int option \<Rightarrow> (string \<times> json) list" where
  "optional k v = (case v of None \<Rightarrow> [] | Some i \<Rightarrow> [(k, JNum i)])"

definition nullable :: "int option \<Rightarrow> json" where
  "nullable v = (case v of None \<Rightarrow> JNull | Some i \<Rightarrow> JNum i)"

definition folder_json :: "folder \<Rightarrow> json" where
  "folder_json f =
     JObj (optional ''id'' (folder_id f) @
           [(''name'', JStr (name f)), (''parentId'', nullable (parentId f)),
            (''isOpen'', JBool (isOpen f))])"

definition file_json :: "file \<Rightarrow> json" where
  "file_json f =
     JObj (optional ''id'' (file_id f) @
           [(''folderId'', nullable (folderId f)), (''title'', JStr (title f)),
            (''content'', JStr (content f)), (''createdAt'', JStr (createdAt f)),
            (''updatedAt'', JStr (updatedAt f))])"

text \<open>
  \<^verbatim>\<open>
  async function exportBackup(): Promise<string> {
      const backup = {
          version: 1,
          exportedAt: new Date().toISOString(),
          folders: folders,
          files: files
      };
      return JSON.stringify(backup, null, 2);
  }
  \<close>
  The function reads the state and assigns nothing: it returns the state it was given.
\<close>

definition exportBackup :: "string \<Rightarrow> 'r appState \<Rightarrow> jsonString \<times> 'r appState" where
  "exportBackup now st =
     (JSON_stringify
        (JObj [(''version'', JNum 1), (''exportedAt'', JStr now),
               (''folders'', JArr (map folder_json (appState.folders st))),
               (''files'', JArr (map file_json (appState.files st)))]),
      st)"

subsection \<open>Helper calls and their trace\<close>

text \<open>
  \<^verbatim>\<open>importBackup\<close> works through seven helper functions of \<^verbatim>\<open>appState.svelte.ts\<close>
  whose bodies are not part of the sources. They are parameters of the model: each takes
  the state and returns the new state, or throws. \<^verbatim>\<open>createFolder\<close> returns the new
  identifier; the value \<^verbatim>\<open>createFile\<close> returns is not used.
\<close>

record 'r helpers =
  deleteFile :: "int \<Rightarrow> 'r appState \<Rightarrow> error + 'r appState"
  deleteFolder :: "int \<Rightarrow> 'r appState \<Rightarrow> error + 'r appState"
  createFolder :: "string \<Rightarrow> int option \<Rightarrow> 'r appState \<Rightarrow> error + int \<times> 'r appState"
  toggleFolderOpen :: "int \<Rightarrow> 'r appState \<Rightarrow> error + 'r appState"
  createFile :: "int option \<Rightarrow> string \<Rightarrow> string \<Rightarrow> 'r appState \<Rightarrow> error + 'r appState"
  refreshData :: "'r appState \<Rightarrow> error + 'r appState"
  selectFile :: "int option \<Rightarrow> 'r appState \<Rightarrow> error + 'r appState"

text \<open>
  The calls \<^verbatim>\<open>importBackup\<close> makes, with their arguments. \<open>CreateFolder name parent r\<close>
  also records the identifier the call returned, \<open>None\<close> when it threw.
\<close>

datatype call =
    DeleteFile int
  | DeleteFolder int
  | CreateFolder string "int option" "int option"
  | ToggleFolderOpen int
  | CreateFile "int option" string string
  | RefreshData
  | SelectFile "int option"

text \<open>
  A run is the list of the calls made, in order, and the outcome. \<open>andThen\<close> is the
  sequencing of two awaited steps: an exception ends the run with the calls made so far.
\<close>

type_synonym 'a run = "call list \<times> (error + 'a)"

definition andThen :: "'a run \<Rightarrow> ('a \<Rightarrow> 'b run) \<Rightarrow> 'b run" where
  "andThen m f =
     (case m of
        (t, Inl e) \<Rightarrow> (t, Inl e)
      | (t, Inr a) \<Rightarrow> (case f a of (t', r) \<Rightarrow> (t @ t', r)))"

definition await :: "call \<Rightarrow> error + 'a \<Rightarrow> 'a run" where
  "await c r = ([c], r)"

definition awaitCreateFolder ::
  "'r helpers \<Rightarrow> string \<Rightarrow> int option \<Rightarrow> 'r appState \<Rightarrow> (int \<times> 'r appState) run" where
  "awaitCreateFolder h nm parent s =
     (case createFolder h nm parent s of
        Inl e \<Rightarrow> ([CreateFolder nm parent None], Inl e)
      | Inr (newId, s') \<Rightarrow> ([CreateFolder nm parent (Some newId)], Inr (newId, s')))"

subsection \<open>importBackup\<close>

text \<open>
  The result of \<^verbatim>\<open>JSON.parse(jsonString)\<close> at the type the code gives it
  (\<^verbatim>\<open>BackupData\<close> of \<^verbatim>\<open>base.ts\<close>, with the records of the backup format). \<open>folders\<close>
  and \<open>files\<close> may be absent (\<open>None\<close>), which the guard of \<^verbatim>\<open>importBackup\<close> tests; an
  array, also the empty one, is truthy.
\<close>

record BackupData =
  version :: int
  exportedAt :: string
  folders :: "folder list option"
  files :: "file list option"

text \<open>The JSON value that a text with this result denotes.\<close>

definition backup_json :: "BackupData \<Rightarrow> json" where
  "backup_json b =
     JObj ([(''version'', JNum (version b)), (''exportedAt'', JStr (exportedAt b))]
           @ (case BackupData.folders b of
                None \<Rightarrow> [] | Some fs \<Rightarrow> [(''folders'', JArr (map folder_json fs))])
           @ (case BackupData.files b of
                None \<Rightarrow> [] | Some xs \<Rightarrow> [(''files'', JArr (map file_json xs))]))"

text \<open>
  \<^verbatim>\<open>
  // 1. Clear existing data
  for (const file of files) {
      if (file.id) await deleteFile(file.id);
  }
  for (const folder of folders) {
      if (folder.id) await deleteFolder(folder.id);
  }
  \<close>
  \<^verbatim>\<open>if (file.id)\<close> skips an identifier that is \<^verbatim>\<open>undefined\<close> or \<^verbatim>\<open>0\<close>.
\<close>

fun deleteFiles :: "'r helpers \<Rightarrow> file list \<Rightarrow> 'r appState \<Rightarrow> 'r appState run" where
  "deleteFiles h [] s = ([], Inr s)"
| "deleteFiles h (f # fs) s =
     andThen
       (case file_id f of
          None \<Rightarrow> ([], Inr s)
        | Some i \<Rightarrow> if i \<noteq> 0 then await (DeleteFile i) (deleteFile h i s) else ([], Inr s))
       (deleteFiles h fs)"

fun deleteFolders :: "'r helpers \<Rightarrow> folder list \<Rightarrow> 'r appState \<Rightarrow> 'r appState run" where
  "deleteFolders h [] s = ([], Inr s)"
| "deleteFolders h (f # fs) s =
     andThen
       (case folder_id f of
          None \<Rightarrow> ([], Inr s)
        | Some i \<Rightarrow> if i \<noteq> 0 then await (DeleteFolder i) (deleteFolder h i s) else ([], Inr s))
       (deleteFolders h fs)"

text \<open>
  \<^verbatim>\<open>
  const folderIdMap: Record<number, number> = {};
  for (const folder of sortedFolders) {
      const oldId = folder.id;
      const newParentId = folder.parentId !== null ? folderIdMap[folder.parentId] ?? null : null;
      const newId = await createFolder(folder.name, newParentId);
      folderIdMap[oldId] = newId;

      if (folder.isOpen === false) {
          await toggleFolderOpen(newId);
      }
  }
  \<close>
  The keys of \<open>folderIdMap\<close> are old identifiers, \<open>None\<close> being the key of a folder whose
  \<open>id\<close> is \<^verbatim>\<open>undefined\<close>; a look-up that finds nothing is \<^verbatim>\<open>undefined\<close>, which
  \<^verbatim>\<open>?? null\<close> turns into \<^verbatim>\<open>null\<close>.
\<close>

type_synonym folderIdMap = "int option \<rightharpoonup> int"

definition newParentId :: "folderIdMap \<Rightarrow> int option \<Rightarrow> int option" where
  "newParentId m old = (case old of None \<Rightarrow> None | Some p \<Rightarrow> m (Some p))"

fun replayFolders ::
  "'r helpers \<Rightarrow> folderIdMap \<Rightarrow> folder list \<Rightarrow> 'r appState \<Rightarrow> (folderIdMap \<times> 'r appState) run" where
  "replayFolders h m [] s = ([], Inr (m, s))"
| "replayFolders h m (f # fs) s =
     andThen (awaitCreateFolder h (name f) (newParentId m (parentId f)) s)
       (\<lambda>(newId, s1).
          andThen
            (if \<not> isOpen f then await (ToggleFolderOpen newId) (toggleFolderOpen h newId s1)
             else ([], Inr s1))
            (replayFolders h (m(folder_id f \<mapsto> newId)) fs))"

text \<open>
  \<^verbatim>\<open>
  for (const file of backup.files) {
      const newFolderId = file.folderId !== null ? folderIdMap[file.folderId] ?? null : null;
      await createFile(newFolderId, file.title, file.content);
  }
  \<close>
\<close>

fun replayFiles :: "'r helpers \<Rightarrow> folderIdMap \<Rightarrow> file list \<Rightarrow> 'r appState \<Rightarrow> 'r appState run" where
  "replayFiles h m [] s = ([], Inr s)"
| "replayFiles h m (f # fs) s =
     andThen
       (await (CreateFile (newParentId m (folderId f)) (title f) (content f))
          (createFile h (newParentId m (folderId f)) (title f) (content f) s))
       (replayFiles h m fs)"

text \<open>
  \<^verbatim>\<open>
  // 4. Refresh UI and select first file
  await refreshData();
  activeFileId = null;
  buffer = '';
  dirty = false;

  if (files.length > 0) {
      await selectFile(files[0].id!);
  }
  \<close>
\<close>

definition refreshAndSelect :: "'r helpers \<Rightarrow> 'r appState \<Rightarrow> 'r appState run" where
  "refreshAndSelect h s =
     andThen (await RefreshData (refreshData h s))
       (\<lambda>s1. let s2 = s1\<lparr>activeFileId := None, buffer := [], dirty := False\<rparr>
             in (case appState.files s2 of
                   [] \<Rightarrow> ([], Inr s2)
                 | f # _ \<Rightarrow> await (SelectFile (file_id f)) (selectFile h (file_id f) s2)))"

text \<open>
  \<^verbatim>\<open>
  async function importBackup(jsonString: string): Promise<void> {
      const backup = JSON.parse(jsonString);

      if (!backup.folders || !backup.files) {
          throw new Error('Invalid backup format');
      }
      ... the four steps above ...
  }
  \<close>
  \<open>jsonString\<close> is \<open>None\<close> for a text that \<^verbatim>\<open>JSON.parse\<close> rejects, and \<open>Some b\<close> for a
  text that denotes \<open>backup_json b\<close>. The sources use
  \<^verbatim>\<open>sortedFolders\<close> without defining it: it is a parameter, the list the second step
  runs over; \<open>sortFolders\<close> below is what the spec says of it.
\<close>

definition importBackup ::
  "'r helpers \<Rightarrow> folder list \<Rightarrow> BackupData option \<Rightarrow> 'r appState \<Rightarrow> 'r appState run" where
  "importBackup h sortedFolders jsonString s =
     (case jsonString of
        None \<Rightarrow> ([], Inl SyntaxError)
      | Some backup \<Rightarrow>
          (case (BackupData.folders backup, BackupData.files backup) of
             (Some _, Some backupFiles) \<Rightarrow>
               andThen (deleteFiles h (appState.files s) s)
                 (\<lambda>s1. andThen (deleteFolders h (appState.folders s1) s1)
                    (\<lambda>s2. andThen (replayFolders h Map.empty sortedFolders s2)
                       (\<lambda>(folderIdMap, s3). andThen (replayFiles h folderIdMap backupFiles s3)
                          (refreshAndSelect h))))
           | _ \<Rightarrow> ([], Inl (Error ''Invalid backup format''))))"

subsection \<open>Reading a trace\<close>

text \<open>
  The step of \<^verbatim>\<open>importBackup\<close> a call belongs to: the wipe of the files, the wipe of the
  folders, the replay of the folders, the replay of the files, the refresh, the selection.
\<close>

fun phase :: "call \<Rightarrow> nat" where
  "phase (DeleteFile i) = 0"
| "phase (DeleteFolder i) = 1"
| "phase (CreateFolder nm p r) = 2"
| "phase (ToggleFolderOpen i) = 2"
| "phase (CreateFile p t c) = 3"
| "phase RefreshData = 4"
| "phase (SelectFile i) = 5"

text \<open>The identifiers that pass the test \<^verbatim>\<open>if (x.id)\<close>, in the order of the list.\<close>

definition truthy_ids :: "int option list \<Rightarrow> int list" where
  "truthy_ids xs = concat (map (\<lambda>x. case x of None \<Rightarrow> [] | Some i \<Rightarrow> if i \<noteq> 0 then [i] else []) xs)"

text \<open>The \<^verbatim>\<open>createFolder\<close> calls and the \<^verbatim>\<open>createFile\<close> calls of a trace.\<close>

fun isCreateFolder :: "call \<Rightarrow> bool" where
  "isCreateFolder (CreateFolder nm p r) = True"
| "isCreateFolder c = False"

fun isCreateFile :: "call \<Rightarrow> bool" where
  "isCreateFile (CreateFile p t c) = True"
| "isCreateFile c = False"


subsection \<open>The order of the folder replay\<close>





subsection \<open>An in-memory repository\<close>

text \<open>
  Modelled from the spec: the bodies of \<^verbatim>\<open>deleteFile\<close>, \<^verbatim>\<open>deleteFolder\<close>,
  \<^verbatim>\<open>createFolder\<close>, \<^verbatim>\<open>toggleFolderOpen\<close>, \<^verbatim>\<open>createFile\<close>, \<^verbatim>\<open>refreshData\<close> and
  \<^verbatim>\<open>selectFile\<close> are missing from the sources. The spec describes them as the
  repository interface: \<^verbatim>\<open>createFolder(name, parentId)\<close> and
  \<^verbatim>\<open>createFile(folderId, title, content)\<close> store a record under a new identifier, new
  folders are open, the delete operations remove the record with the identifier given,
  and every operation may fail. This repository keeps its records in two lists and hands
  out \<open>next_id\<close>; none of its operations fails. \<open>lockedHelpers lk\<close> is the same repository
  refusing to delete the identifiers in \<open>lk\<close>. The theorems below hold for every choice of
  helpers; these are the concrete instances they are run on.
\<close>

record db =
  db_folders :: "folder list"
  db_files :: "file list"
  next_id :: int

definition mem_deleteFile :: "int \<Rightarrow> db appState \<Rightarrow> error + db appState" where
  "mem_deleteFile i s =
     Inr (s\<lparr>repo := (repo s)\<lparr>db_files := filter (\<lambda>f. file_id f \<noteq> Some i) (db_files (repo s))\<rparr>\<rparr>)"

definition mem_deleteFolder :: "int \<Rightarrow> db appState \<Rightarrow> error + db appState" where
  "mem_deleteFolder i s =
     Inr (s\<lparr>repo := (repo s)\<lparr>db_folders := filter (\<lambda>f. folder_id f \<noteq> Some i) (db_folders (repo s))\<rparr>\<rparr>)"

definition mem_createFolder :: "string \<Rightarrow> int option \<Rightarrow> db appState \<Rightarrow> error + int \<times> db appState" where
  "mem_createFolder nm parent s =
     Inr (next_id (repo s),
          s\<lparr>repo := (repo s)
               \<lparr>db_folders := db_folders (repo s) @
                   [\<lparr>folder_id = Some (next_id (repo s)), name = nm, parentId = parent, isOpen = True\<rparr>],
                next_id := next_id (repo s) + 1\<rparr>\<rparr>)"

definition mem_toggleFolderOpen :: "int \<Rightarrow> db appState \<Rightarrow> error + db appState" where
  "mem_toggleFolderOpen i s =
     Inr (s\<lparr>repo := (repo s)
               \<lparr>db_folders :=
                  map (\<lambda>f. if folder_id f = Some i then f\<lparr>isOpen := \<not> isOpen f\<rparr> else f)
                    (db_folders (repo s))\<rparr>\<rparr>)"

definition mem_createFile :: "int option \<Rightarrow> string \<Rightarrow> string \<Rightarrow> db appState \<Rightarrow> error + db appState" where
  "mem_createFile fid ttl txt s =
     Inr (s\<lparr>repo := (repo s)
               \<lparr>db_files := db_files (repo s) @
                   [\<lparr>file_id = Some (next_id (repo s)), folderId = fid, title = ttl, content = txt,
                     createdAt = [], updatedAt = []\<rparr>],
                next_id := next_id (repo s) + 1\<rparr>\<rparr>)"

definition mem_refreshData :: "db appState \<Rightarrow> error + db appState" where
  "mem_refreshData s =
     Inr (s\<lparr>appState.folders := db_folders (repo s), appState.files := db_files (repo s)\<rparr>)"

definition mem_selectFile :: "int option \<Rightarrow> db appState \<Rightarrow> error + db appState" where
  "mem_selectFile i s =
     Inr (s\<lparr>activeFileId := i,
            buffer := (case filter (\<lambda>f. file_id f = i) (db_files (repo s)) of
                         [] \<Rightarrow> [] | f # _ \<Rightarrow> content f),
            dirty := False\<rparr>)"

definition memHelpers :: "db helpers" where
  "memHelpers =
     \<lparr>deleteFile = mem_deleteFile, deleteFolder = mem_deleteFolder,
      createFolder = mem_createFolder, toggleFolderOpen = mem_toggleFolderOpen,
      createFile = mem_createFile, refreshData = mem_refreshData,
      selectFile = mem_selectFile\<rparr>"

definition lockedHelpers :: "int list \<Rightarrow> db helpers" where
  "lockedHelpers lk =
     memHelpers
       \<lparr>deleteFile := (\<lambda>i s. if i \<in> set lk then Inl (Error ''delete failed'') else mem_deleteFile i s),
        deleteFolder := (\<lambda>i s. if i \<in> set lk then Inl (Error ''delete failed'') else mem_deleteFolder i s)\<rparr>"

text \<open>Helpers none of which ever throws.\<close>

definition neverThrows :: "'r helpers \<Rightarrow> bool" where
  "neverThrows h \<longleftrightarrow>
     (\<forall>i s. \<not> isl (deleteFile h i s)) \<and> (\<forall>i s. \<not> isl (deleteFolder h i s))
     \<and> (\<forall>nm p s. \<not> isl (createFolder h nm p s)) \<and> (\<forall>i s. \<not> isl (toggleFolderOpen h i s))
     \<and> (\<forall>p t c s. \<not> isl (createFile h p t c s)) \<and> (\<forall>s. \<not> isl (refreshData h s))
     \<and> (\<forall>i s. \<not> isl (selectFile h i s))"

subsection \<open>Example workspaces and snapshots\<close>

text \<open>
  A state whose cached lists agree with the repository, a file, a folder and a snapshot,
  for the concrete runs below.
\<close>

definition workspace :: "folder list \<Rightarrow> file list \<Rightarrow> int \<Rightarrow> db appState" where
  "workspace fs xs n =
     \<lparr>appState.folders = fs, appState.files = xs, activeFileId = None, buffer = [], dirty = False,
      repo = \<lparr>db_folders = fs, db_files = xs, next_id = n\<rparr>\<rparr>"

definition aFile :: "int \<Rightarrow> int option \<Rightarrow> string \<Rightarrow> string \<Rightarrow> file" where
  "aFile i fid ttl txt =
     \<lparr>file_id = Some i, folderId = fid, title = ttl, content = txt, createdAt = [], updatedAt = []\<rparr>"

definition aFolder :: "int \<Rightarrow> int option \<Rightarrow> string \<Rightarrow> bool \<Rightarrow> folder" where
  "aFolder i parent nm opn = \<lparr>folder_id = Some i, name = nm, parentId = parent, isOpen = opn\<rparr>"

definition snapshot :: "folder list \<Rightarrow> file list \<Rightarrow> BackupData" where
  "snapshot fs xs =
     \<lparr>version = 1, exportedAt = ''2025-12-07T10:30:00.000Z'',
      BackupData.folders = Some fs, BackupData.files = Some xs\<rparr>"

section \<open>The snapshot codec\<close>

lemma nullable_inj: "nullable a = nullable b \<Longrightarrow> a = b"
  by (cases a; cases b) (simp_all add: nullable_def)

lemma folder_json_inj: "folder_json f = folder_json g \<Longrightarrow> f = g"
  by (cases "folder_id f"; cases "folder_id g")
     (auto simp: folder_json_def optional_def dest: nullable_inj intro: folder.equality)

lemma file_json_inj: "file_json f = file_json g \<Longrightarrow> f = g"
  by (cases "file_id f"; cases "file_id g")
     (auto simp: file_json_def optional_def dest: nullable_inj intro: file.equality)

lemma deserialize_object:
  "deserialize (JSON (JObj kvs)) =
     (if truthy (map_of (rev kvs) ''folders'') \<and> truthy (map_of (rev kvs) ''files'')
      then Inr (JObj kvs) else Inl (Error ''Invalid backup format''))"
  by (simp add: deserialize_def JSON_parse_def member_def)

lemma serialize_roundtrip:
  "deserialize (serialize now fs xs) =
     Inr (JObj [(''version'', JNum 1), (''exportedAt'', JStr now),
                (''folders'', JArr fs), (''files'', JArr xs)])"
  by (simp add: serialize_def JSON_stringify_def deserialize_object)

text \<open>
  The guard of \<^verbatim>\<open>deserialize\<close>, on the JSON value of a typed backup, is the guard of
  \<^verbatim>\<open>importBackup\<close> on the typed backup; and what \<^verbatim>\<open>exportBackup\<close> writes is the JSON
  value of the typed backup that holds the folders and files of the state.
\<close>

lemma deserialize_backup_json:
  "deserialize (JSON (backup_json b)) =
     (case (BackupData.folders b, BackupData.files b) of
        (Some _, Some _) \<Rightarrow> Inr (backup_json b)
      | _ \<Rightarrow> Inl (Error ''Invalid backup format''))"
  by (simp add: backup_json_def deserialize_object split: option.splits)

lemma exportBackup_backup_json:
  "fst (exportBackup now st) =
     JSON (backup_json \<lparr>version = 1, exportedAt = now,
                        BackupData.folders = Some (appState.folders st),
                        BackupData.files = Some (appState.files st)\<rparr>)"
  by (simp add: exportBackup_def JSON_stringify_def backup_json_def)

text \<open>
  C4. Decoding what \<^verbatim>\<open>exportBackup\<close> wrote succeeds for every state, also one with no
  folders and no files, and returns the snapshot with version 1, the time of the export,
  and the folders and files of the state as JSON records, each list in the order of the
  state. Two exports of the same state differ in \<open>exportedAt\<close> only. The export leaves the
  state as it was, and the JSON records determine the folder and file records
  (\<open>folder_json\<close> and \<open>file_json\<close> are injective), so nothing of a record is lost.
\<close>

theorem exportBackup_roundtrip:
  "deserialize (fst (exportBackup now st)) =
     Inr (JObj [(''version'', JNum 1), (''exportedAt'', JStr now),
                (''folders'', JArr (map folder_json (appState.folders st))),
                (''files'', JArr (map file_json (appState.files st)))])
   \<and> snd (exportBackup now st) = st
   \<and> inj folder_json \<and> inj file_json"
  by (simp add: exportBackup_def JSON_stringify_def deserialize_object inj_def)
     (blast dest: folder_json_inj file_json_inj)

theorem exportBackup_roundtrip_witness:
  "deserialize (fst (exportBackup ''2025-12-07T10:30:00.000Z''
       \<lparr>appState.folders = [\<lparr>folder_id = Some 1, name = ''My Folder'', parentId = None, isOpen = True\<rparr>],
        appState.files = [], activeFileId = None, buffer = [], dirty = False, repo = ()\<rparr>)) =
     Inr (JObj [(''version'', JNum 1), (''exportedAt'', JStr ''2025-12-07T10:30:00.000Z''),
                (''folders'', JArr [JObj [(''id'', JNum 1), (''name'', JStr ''My Folder''),
                                          (''parentId'', JNull), (''isOpen'', JBool True)]]),
                (''files'', JArr [])])"
  using exportBackup_roundtrip [of "''2025-12-07T10:30:00.000Z''"
      "\<lparr>appState.folders = [\<lparr>folder_id = Some 1, name = ''My Folder'', parentId = None, isOpen = True\<rparr>],
        appState.files = [], activeFileId = None, buffer = [], dirty = False, repo = ()\<rparr>"]
  by (simp add: folder_json_def optional_def nullable_def)

text \<open>
  C5, as the claim states it, fails: \<^verbatim>\<open>deserialize\<close> returns the snapshot of version 999
  with empty folders and files; nothing is thrown.
\<close>

theorem deserialize_version_999:
  "deserialize (JSON (JObj [(''version'', JNum 999), (''folders'', JArr []), (''files'', JArr [])]))
     = Inr (JObj [(''version'', JNum 999), (''folders'', JArr []), (''files'', JArr [])])"
  by (simp add: deserialize_object)

text \<open>
  C5, amended. \<^verbatim>\<open>deserialize\<close> never reads the version. A parsed input whose version
  exceeds 1 is treated as any other: it is returned as parsed, version included, when its
  \<open>folders\<close> and \<open>files\<close> are both truthy, and rejected with
  \<^verbatim>\<open>Error('Invalid backup format')\<close> otherwise.
\<close>

theorem deserialize_ignores_version:
  assumes "own_property ''version'' backup = Some (JNum v)" and "1 < v"
  shows "deserialize (JSON backup) =
           (if truthy (own_property ''folders'' backup) \<and> truthy (own_property ''files'' backup)
            then Inr backup else Inl (Error ''Invalid backup format''))"
  using assms by (cases backup) (simp_all add: deserialize_object)

theorem deserialize_ignores_version_witness:
  "own_property ''version'' (JObj [(''version'', JNum 2), (''folders'', JArr [JNull]), (''files'', JArr [])])
     = Some (JNum 2)
   \<and> (1::int) < 2
   \<and> deserialize (JSON (JObj [(''version'', JNum 2), (''folders'', JArr [JNull]), (''files'', JArr [])]))
       = Inr (JObj [(''version'', JNum 2), (''folders'', JArr [JNull]), (''files'', JArr [])])"
  using deserialize_ignores_version
    [of "JObj [(''version'', JNum 2), (''folders'', JArr [JNull]), (''files'', JArr [])]" 2]
  by simp

text \<open>
  C6, as the claim states it, fails: \<open>folders\<close> is a string and \<open>files\<close> a number, neither
  is a sequence, and \<^verbatim>\<open>deserialize\<close> returns the value.
\<close>

theorem deserialize_accepts_non_sequences:
  "deserialize (JSON (JObj [(''folders'', JStr ''abc''), (''files'', JNum 5)]))
     = Inr (JObj [(''folders'', JStr ''abc''), (''files'', JNum 5)])"
  by (simp add: deserialize_object)

text \<open>
  C6, amended. \<^verbatim>\<open>deserialize\<close> fails with the \<^verbatim>\<open>SyntaxError\<close> of \<^verbatim>\<open>JSON.parse\<close> on a
  text that is not JSON, with a \<^verbatim>\<open>TypeError\<close> on the text \<^verbatim>\<open>null\<close>, and with
  \<^verbatim>\<open>Error('Invalid backup format')\<close> exactly when \<open>folders\<close> or \<open>files\<close> is falsy: absent,
  \<^verbatim>\<open>null\<close>, \<^verbatim>\<open>false\<close>, \<^verbatim>\<open>0\<close> or the empty string. Every other input is returned as
  parsed, whether the two fields are sequences or not; in particular an input where both
  are sequences is never rejected.
\<close>

theorem deserialize_cases:
  "deserialize NotJSON = Inl SyntaxError
   \<and> deserialize (JSON JNull) = Inl TypeError
   \<and> (backup \<noteq> JNull \<longrightarrow>
        deserialize (JSON backup) =
          (if truthy (own_property ''folders'' backup) \<and> truthy (own_property ''files'' backup)
           then Inr backup else Inl (Error ''Invalid backup format'')))
   \<and> (own_property ''folders'' backup = Some (JArr xs) \<and> own_property ''files'' backup = Some (JArr ys)
        \<longrightarrow> deserialize (JSON backup) = Inr backup)"
  by (cases backup) (simp_all add: deserialize_def JSON_parse_def member_def)

theorem deserialize_cases_witness:
  "deserialize NotJSON = Inl SyntaxError
   \<and> deserialize (JSON JNull) = Inl TypeError
   \<and> deserialize (JSON (JObj [(''version'', JNum 1), (''folders'', JArr []), (''files'', JArr [])]))
       = Inr (JObj [(''version'', JNum 1), (''folders'', JArr []), (''files'', JArr [])])
   \<and> deserialize (JSON (JObj [(''version'', JNum 1), (''files'', JArr [])]))
       = Inl (Error ''Invalid backup format'')"
  using deserialize_cases
    [of "JObj [(''version'', JNum 1), (''folders'', JArr []), (''files'', JArr [])]" "[]" "[]"]
    deserialize_cases [of "JObj [(''version'', JNum 1), (''files'', JArr [])]" "[]" "[]"]
  by simp

section \<open>The import\<close>

subsection \<open>Sequencing of awaited steps\<close>

lemma andThen_Inl [simp]: "andThen (t, Inl e) f = (t, Inl e)"
  by (simp add: andThen_def)

lemma andThen_Inr [simp]: "andThen (t, Inr a) f = (t @ fst (f a), snd (f a))"
  by (simp add: andThen_def split: prod.splits)

lemma andThen_pair:
  "andThen (t, r) f = (case r of Inl e \<Rightarrow> (t, Inl e) | Inr a \<Rightarrow> (t @ fst (f a), snd (f a)))"
  by (cases r) simp_all

lemma not_isl_Inr: "\<not> isl r \<Longrightarrow> \<exists>a. r = Inr a"
  by (cases r) simp_all

subsection \<open>The calls of each step\<close>

lemma deleteFiles_calls: "c \<in> set (fst (deleteFiles h fs s)) \<Longrightarrow> phase c = 0"
proof (induction fs arbitrary: s)
  case Nil
  then show ?case by simp
next
  case (Cons f fs)
  then show ?case
    by (cases "file_id f") (auto simp: await_def andThen_pair split: if_splits sum.splits)
qed

lemma deleteFolders_calls: "c \<in> set (fst (deleteFolders h fs s)) \<Longrightarrow> phase c = 1"
proof (induction fs arbitrary: s)
  case Nil
  then show ?case by simp
next
  case (Cons f fs)
  then show ?case
    by (cases "folder_id f") (auto simp: await_def andThen_pair split: if_splits sum.splits)
qed

lemma replayFolders_calls: "c \<in> set (fst (replayFolders h m fs s)) \<Longrightarrow> phase c = 2"
proof (induction fs arbitrary: m s)
  case Nil
  then show ?case by simp
next
  case (Cons f fs)
  then show ?case
    by (auto simp: await_def awaitCreateFolder_def andThen_pair split: if_splits sum.splits prod.splits)
qed

lemma replayFiles_calls: "c \<in> set (fst (replayFiles h m fs s)) \<Longrightarrow> phase c = 3"
proof (induction fs arbitrary: s)
  case Nil
  then show ?case by simp
next
  case (Cons f fs)
  then show ?case
    by (auto simp: await_def andThen_pair split: if_splits sum.splits)
qed

lemma refreshAndSelect_calls: "c \<in> set (fst (refreshAndSelect h s)) \<Longrightarrow> 4 \<le> phase c"
  by (auto simp: refreshAndSelect_def await_def andThen_pair Let_def split: sum.splits list.splits)

lemma refreshAndSelect_sorted: "sorted (map phase (fst (refreshAndSelect h s)))"
  by (auto simp: refreshAndSelect_def await_def andThen_pair Let_def split: sum.splits list.splits)

lemma same_phase_sorted: "(\<And>c. c \<in> set t \<Longrightarrow> phase c = k) \<Longrightarrow> sorted (map phase t)"
  by (induction t) auto

lemma isCreateFolder_phase: "isCreateFolder c \<Longrightarrow> phase c = 2"
  by (cases c) simp_all

lemma isCreateFile_phase: "isCreateFile c \<longleftrightarrow> phase c = 3"
  by (cases c) simp_all

lemma filter_isCreateFolder_none: "(\<And>c. c \<in> set t \<Longrightarrow> phase c \<noteq> 2) \<Longrightarrow> filter isCreateFolder t = []"
  by (induction t) (auto dest: isCreateFolder_phase)

lemma filter_isCreateFile_none: "(\<And>c. c \<in> set t \<Longrightarrow> phase c \<noteq> 3) \<Longrightarrow> filter isCreateFile t = []"
  by (induction t) (auto simp: isCreateFile_phase)

lemma filter_isCreateFile_all: "(\<And>c. c \<in> set t \<Longrightarrow> phase c = 3) \<Longrightarrow> filter isCreateFile t = t"
  by (induction t) (auto simp: isCreateFile_phase)

lemma filter_low_phase:
  assumes "\<And>c. c \<in> set t \<Longrightarrow> phase c < 2"
  shows "filter (\<lambda>c. phase c < 2) t = t"
  using assms by (induction t) auto

lemma filter_high_phase:
  assumes "\<And>c. c \<in> set t \<Longrightarrow> 2 \<le> phase c"
  shows "filter (\<lambda>c. phase c < 2) t = []"
  using assms by (induction t) (auto simp: not_less [symmetric] simp del: not_less)

subsection \<open>The wipe\<close>

lemma deleteFiles_done':
  "snd (deleteFiles h fs s) = Inr s' \<Longrightarrow>
     fst (deleteFiles h fs s) = map DeleteFile (truthy_ids (map file_id fs))"
proof (induction fs arbitrary: s)
  case Nil
  then show ?case by (simp add: truthy_ids_def)
next
  case (Cons f fs)
  then show ?case
    by (cases "file_id f")
       (auto simp: await_def andThen_pair truthy_ids_def split: if_splits sum.splits)
qed

lemma deleteFiles_done:
  "deleteFiles h fs s = (t, Inr s') \<Longrightarrow> t = map DeleteFile (truthy_ids (map file_id fs))"
  using deleteFiles_done' [of h fs s s'] by simp

lemma deleteFolders_done':
  "snd (deleteFolders h fs s) = Inr s' \<Longrightarrow>
     fst (deleteFolders h fs s) = map DeleteFolder (truthy_ids (map folder_id fs))"
proof (induction fs arbitrary: s)
  case Nil
  then show ?case by (simp add: truthy_ids_def)
next
  case (Cons f fs)
  then show ?case
    by (cases "folder_id f")
       (auto simp: await_def andThen_pair truthy_ids_def split: if_splits sum.splits)
qed

lemma deleteFolders_done:
  "deleteFolders h fs s = (t, Inr s') \<Longrightarrow> t = map DeleteFolder (truthy_ids (map folder_id fs))"
  using deleteFolders_done' [of h fs s s'] by simp

lemma deleteFiles_append:
  "deleteFiles h (pre @ post) s = andThen (deleteFiles h pre s) (deleteFiles h post)"
proof (induction pre arbitrary: s)
  case Nil
  show ?case by simp
next
  case (Cons f pre)
  show ?case
  proof (cases "\<exists>i. file_id f = Some i \<and> i \<noteq> 0")
    case True
    then obtain i where i: "file_id f = Some i" "i \<noteq> 0" by blast
    show ?thesis
    proof (cases "deleteFile h i s")
      case (Inl e)
      with i show ?thesis by (simp add: await_def)
    next
      case (Inr s1)
      with i Cons [of s1] show ?thesis
        by (cases "deleteFiles h pre s1"; cases "snd (deleteFiles h pre s1)")
           (auto simp: await_def)
    qed
  next
    case False
    with Cons [of s] show ?thesis
      by (cases "file_id f") auto
  qed
qed

lemma deleteFolders_append:
  "deleteFolders h (pre @ post) s = andThen (deleteFolders h pre s) (deleteFolders h post)"
proof (induction pre arbitrary: s)
  case Nil
  show ?case by simp
next
  case (Cons f pre)
  show ?case
  proof (cases "\<exists>i. folder_id f = Some i \<and> i \<noteq> 0")
    case True
    then obtain i where i: "folder_id f = Some i" "i \<noteq> 0" by blast
    show ?thesis
    proof (cases "deleteFolder h i s")
      case (Inl e)
      with i show ?thesis by (simp add: await_def)
    next
      case (Inr s1)
      with i Cons [of s1] show ?thesis
        by (cases "deleteFolders h pre s1"; cases "snd (deleteFolders h pre s1)")
           (auto simp: await_def)
    qed
  next
    case False
    with Cons [of s] show ?thesis
      by (cases "folder_id f") auto
  qed
qed

lemma deleteFiles_total:
  assumes "\<forall>i s. \<not> isl (deleteFile h i s)"
  shows "\<exists>t s'. deleteFiles h fs s = (t, Inr s')"
proof (induction fs arbitrary: s)
  case Nil
  then show ?case by simp
next
  case (Cons f fs)
  show ?case
  proof (cases "\<exists>i. file_id f = Some i \<and> i \<noteq> 0")
    case True
    then obtain i where i: "file_id f = Some i" "i \<noteq> 0" by blast
    from assms obtain s1 where "deleteFile h i s = Inr s1"
      using not_isl_Inr by blast
    moreover from Cons [of s1] obtain t s' where "deleteFiles h fs s1 = (t, Inr s')"
      by blast
    ultimately show ?thesis using i
      by (simp add: await_def)
  next
    case False
    moreover from Cons [of s] obtain t s' where "deleteFiles h fs s = (t, Inr s')"
      by blast
    ultimately show ?thesis
      by (cases "file_id f") auto
  qed
qed

lemma deleteFolders_total:
  assumes "\<forall>i s. \<not> isl (deleteFolder h i s)"
  shows "\<exists>t s'. deleteFolders h fs s = (t, Inr s')"
proof (induction fs arbitrary: s)
  case Nil
  then show ?case by simp
next
  case (Cons f fs)
  show ?case
  proof (cases "\<exists>i. folder_id f = Some i \<and> i \<noteq> 0")
    case True
    then obtain i where i: "folder_id f = Some i" "i \<noteq> 0" by blast
    from assms obtain s1 where "deleteFolder h i s = Inr s1"
      using not_isl_Inr by blast
    moreover from Cons [of s1] obtain t s' where "deleteFolders h fs s1 = (t, Inr s')"
      by blast
    ultimately show ?thesis using i
      by (simp add: await_def)
  next
    case False
    moreover from Cons [of s] obtain t s' where "deleteFolders h fs s = (t, Inr s')"
      by blast
    ultimately show ?thesis
      by (cases "folder_id f") auto
  qed
qed

lemma wiped_calls:
  assumes "deleteFiles h (appState.files s) s = (t1, Inr s1)"
    and "deleteFolders h (appState.folders s1) s1 = (t2, Inr s2)"
    and "\<And>c. c \<in> set rest \<Longrightarrow> 2 \<le> phase c"
  shows "filter (\<lambda>c. phase c < 2) (t1 @ t2 @ rest) =
           map DeleteFile (truthy_ids (map file_id (appState.files s)))
           @ map DeleteFolder (truthy_ids (map folder_id (appState.folders s1)))"
proof -
  have "filter (\<lambda>c. phase c < 2) t1 = t1"
    using deleteFiles_calls [of _ h "appState.files s" s] assms(1)
    by (intro filter_low_phase) auto
  moreover have "filter (\<lambda>c. phase c < 2) t2 = t2"
    using deleteFolders_calls [of _ h "appState.folders s1" s1] assms(2)
    by (intro filter_low_phase) auto
  moreover have "filter (\<lambda>c. phase c < 2) rest = []"
    using assms(3) by (rule filter_high_phase)
  ultimately show ?thesis
    using deleteFiles_done [OF assms(1)] deleteFolders_done [OF assms(2)] by simp
qed

subsection \<open>The replay of the folders\<close>

lemma replayFolders_Cons_Inr:
  assumes "replayFolders h m (f # fs) s = (t, Inr (m', s'))"
  obtains n s1 s2 t' where
    "createFolder h (name f) (newParentId m (parentId f)) s = Inr (n, s1)"
    "replayFolders h (m(folder_id f \<mapsto> n)) fs s2 = (t', Inr (m', s'))"
    "filter isCreateFolder t = CreateFolder (name f) (newParentId m (parentId f)) (Some n) # filter isCreateFolder t'"
proof (cases "createFolder h (name f) (newParentId m (parentId f)) s")
  case (Inl e)
  with assms show thesis
    by (simp add: awaitCreateFolder_def)
next
  case (Inr r)
  obtain n s1 where r: "r = (n, s1)" by (cases r)
  show thesis
  proof (cases "isOpen f")
    case True
    with assms Inr r that [of n s1 s1 "fst (replayFolders h (m(folder_id f \<mapsto> n)) fs s1)"]
    show thesis
      by (cases "replayFolders h (m(folder_id f \<mapsto> n)) fs s1")
         (auto simp: awaitCreateFolder_def)
  next
    case False
    show thesis
    proof (cases "toggleFolderOpen h n s1")
      case (Inl e)
      with assms Inr r False show thesis
        by (simp add: awaitCreateFolder_def await_def)
    next
      case tg: (Inr s2)
      with assms Inr r False that [of n s1 s2 "fst (replayFolders h (m(folder_id f \<mapsto> n)) fs s2)"]
      show thesis
        by (cases "replayFolders h (m(folder_id f \<mapsto> n)) fs s2")
           (auto simp: awaitCreateFolder_def await_def)
    qed
  qed
qed


lemma replayFolders_dom:
  "replayFolders h m fs s = (t, Inr (m', s')) \<Longrightarrow> dom m' = dom m \<union> set (map folder_id fs)"
proof (induction fs arbitrary: m s t)
  case Nil
  then show ?case by simp
next
  case (Cons f fs)
  from Cons.prems obtain n s2 t' where
    "replayFolders h (m(folder_id f \<mapsto> n)) fs s2 = (t', Inr (m', s'))"
    by (rule replayFolders_Cons_Inr)
  from Cons.IH [OF this] show ?case by auto
qed

lemma replayFolders_returned:
  "replayFolders h m fs s = (t, Inr r) \<Longrightarrow>
     length (filter isCreateFolder t) = length fs \<and> (\<forall>nm p. CreateFolder nm p None \<notin> set t)"
proof (induction fs arbitrary: m s t)
  case Nil
  then show ?case by simp
next
  case (Cons f fs)
  show ?case
  proof (cases "createFolder h (name f) (newParentId m (parentId f)) s")
    case (Inl e)
    with Cons.prems show ?thesis
      by (simp add: awaitCreateFolder_def)
  next
    case (Inr ns)
    obtain n s1 where ns: "ns = (n, s1)" by (cases ns)
    show ?thesis
    proof (cases "isOpen f")
      case True
      with Cons.prems Inr ns
      have "snd (replayFolders h (m(folder_id f \<mapsto> n)) fs s1) = Inr r"
        and t: "t = CreateFolder (name f) (newParentId m (parentId f)) (Some n)
                  # fst (replayFolders h (m(folder_id f \<mapsto> n)) fs s1)"
        by (simp_all add: awaitCreateFolder_def)
      then have "replayFolders h (m(folder_id f \<mapsto> n)) fs s1
                   = (fst (replayFolders h (m(folder_id f \<mapsto> n)) fs s1), Inr r)"
        by (simp add: prod_eq_iff)
      from Cons.IH [OF this] show ?thesis
        by (simp add: t)
    next
      case False
      show ?thesis
      proof (cases "toggleFolderOpen h n s1")
        case (Inl e)
        with Cons.prems Inr ns False show ?thesis
          by (simp add: awaitCreateFolder_def await_def)
      next
        case tg: (Inr s2)
        with Cons.prems Inr ns False
        have "snd (replayFolders h (m(folder_id f \<mapsto> n)) fs s2) = Inr r"
          and t: "t = CreateFolder (name f) (newParentId m (parentId f)) (Some n)
                    # ToggleFolderOpen n # fst (replayFolders h (m(folder_id f \<mapsto> n)) fs s2)"
          by (simp_all add: awaitCreateFolder_def await_def)
        then have "replayFolders h (m(folder_id f \<mapsto> n)) fs s2
                     = (fst (replayFolders h (m(folder_id f \<mapsto> n)) fs s2), Inr r)"
          by (simp add: prod_eq_iff)
        from Cons.IH [OF this] show ?thesis
          by (simp add: t)
      qed
    qed
  qed
qed

lemma replayFolders_unseen_parent:
  assumes "replayFolders h m fs s = (t, Inr (m', s'))"
    and "i < length fs"
    and "parentId (fs ! i) = Some p"
    and "Some p \<notin> dom m"
    and "Some p \<notin> folder_id ` set (take i fs)"
  shows "\<exists>r. filter isCreateFolder t ! i = CreateFolder (name (fs ! i)) None r"
  using assms
proof (induction fs arbitrary: m s t i)
  case Nil
  then show ?case by simp
next
  case (Cons f fs)
  from Cons.prems(1) obtain n s2 t' where
    rest: "replayFolders h (m(folder_id f \<mapsto> n)) fs s2 = (t', Inr (m', s'))" and
    tr: "filter isCreateFolder t =
           CreateFolder (name f) (newParentId m (parentId f)) (Some n) # filter isCreateFolder t'"
    by (rule replayFolders_Cons_Inr)
  show ?case
  proof (cases i)
    case 0
    with Cons.prems(3,4) have "newParentId m (parentId f) = None"
      by (simp add: newParentId_def domIff)
    with 0 tr show ?thesis by simp
  next
    case (Suc j)
    with Cons.prems(2,3,5) have j: "j < length fs" "parentId (fs ! j) = Some p"
      and nf: "Some p \<noteq> folder_id f" and nt: "Some p \<notin> folder_id ` set (take j fs)"
      by auto
    from nf Cons.prems(4) have "Some p \<notin> dom (m(folder_id f \<mapsto> n))"
      by auto
    from Cons.IH [OF rest j this nt] Suc tr show ?thesis
      by simp
  qed
qed

lemma replayFolders_total:
  assumes "\<forall>nm p s. \<not> isl (createFolder h nm p s)" and "\<forall>i s. \<not> isl (toggleFolderOpen h i s)"
  shows "\<exists>t m' s'. replayFolders h m fs s = (t, Inr (m', s'))"
proof (induction fs arbitrary: m s)
  case Nil
  then show ?case by simp
next
  case (Cons f fs)
  from assms(1) obtain r where "createFolder h (name f) (newParentId m (parentId f)) s = Inr r"
    using not_isl_Inr by blast
  then obtain n s1 where cf: "createFolder h (name f) (newParentId m (parentId f)) s = Inr (n, s1)"
    by (cases r) simp
  from assms(2) obtain s2 where tg: "toggleFolderOpen h n s1 = Inr s2"
    using not_isl_Inr by blast
  show ?case
  proof (cases "isOpen f")
    case True
    from Cons [of "m(folder_id f \<mapsto> n)" s1] obtain t m' s' where
      "replayFolders h (m(folder_id f \<mapsto> n)) fs s1 = (t, Inr (m', s'))"
      by blast
    with cf True show ?thesis
      by (simp add: awaitCreateFolder_def)
  next
    case False
    from Cons [of "m(folder_id f \<mapsto> n)" s2] obtain t m' s' where
      "replayFolders h (m(folder_id f \<mapsto> n)) fs s2 = (t, Inr (m', s'))"
      by blast
    with cf tg False show ?thesis
      by (simp add: awaitCreateFolder_def await_def)
  qed
qed

subsection \<open>The order of the folder replay\<close>








subsection \<open>The replay of the files, the refresh and the selection\<close>

lemma replayFiles_trace:
  "\<exists>k\<le>length xs.
     fst (replayFiles h m xs s) =
       map (\<lambda>f. CreateFile (newParentId m (folderId f)) (title f) (content f)) (take k xs)
     \<and> (\<forall>s'. snd (replayFiles h m xs s) = Inr s' \<longrightarrow> k = length xs)"
proof (induction xs arbitrary: s)
  case Nil
  then show ?case by simp
next
  case (Cons f xs)
  show ?case
  proof (cases "createFile h (newParentId m (folderId f)) (title f) (content f) s")
    case (Inl e)
    then show ?thesis
      by (intro exI [of _ 1]) (simp add: await_def)
  next
    case (Inr s1)
    from Cons.IH [of s1] obtain k where "k \<le> length xs"
      "fst (replayFiles h m xs s1) =
         map (\<lambda>f. CreateFile (newParentId m (folderId f)) (title f) (content f)) (take k xs)"
      "\<forall>s'. snd (replayFiles h m xs s1) = Inr s' \<longrightarrow> k = length xs"
      by blast
    with Inr show ?thesis
      by (intro exI [of _ "Suc k"]) (simp add: await_def)
  qed
qed


lemma replayFiles_done:
  assumes "replayFiles h m xs s = (t, Inr s')"
  shows "t = map (\<lambda>f. CreateFile (newParentId m (folderId f)) (title f) (content f)) xs"
  using replayFiles_trace [of xs h m s] assms by auto

lemma replayFiles_total:
  assumes "\<forall>p t c s. \<not> isl (createFile h p t c s)"
  shows "\<exists>t s'. replayFiles h m xs s = (t, Inr s')"
proof (induction xs arbitrary: s)
  case Nil
  then show ?case by simp
next
  case (Cons f xs)
  from assms obtain s1 where
    "createFile h (newParentId m (folderId f)) (title f) (content f) s = Inr s1"
    using not_isl_Inr by blast
  moreover from Cons [of s1] obtain t s' where "replayFiles h m xs s1 = (t, Inr s')"
    by blast
  ultimately show ?case
    by (simp add: await_def)
qed

lemma refreshAndSelect_empty:
  "refreshData h s = Inr s1 \<Longrightarrow> appState.files s1 = [] \<Longrightarrow>
     refreshAndSelect h s = ([RefreshData], Inr (s1\<lparr>activeFileId := None, buffer := [], dirty := False\<rparr>))"
  by (simp add: refreshAndSelect_def await_def)

lemma refreshAndSelect_first:
  "refreshData h s = Inr s1 \<Longrightarrow> appState.files s1 = f # fs \<Longrightarrow>
     refreshAndSelect h s =
       ([RefreshData, SelectFile (file_id f)],
        selectFile h (file_id f) (s1\<lparr>activeFileId := None, buffer := [], dirty := False\<rparr>))"
  by (simp add: refreshAndSelect_def await_def)

lemma refreshAndSelect_total:
  assumes "\<forall>s. \<not> isl (refreshData h s)" and "\<forall>i s. \<not> isl (selectFile h i s)"
  shows "\<exists>t s'. refreshAndSelect h s = (t, Inr s')"
proof -
  from assms(1) obtain s1 where r: "refreshData h s = Inr s1"
    using not_isl_Inr by blast
  show ?thesis
  proof (cases "appState.files s1")
    case Nil
    with r show ?thesis by (simp add: refreshAndSelect_empty)
  next
    case (Cons f fs)
    from assms(2) obtain s2 where
      "selectFile h (file_id f) (s1\<lparr>activeFileId := None, buffer := [], dirty := False\<rparr>) = Inr s2"
      using not_isl_Inr by blast
    with r Cons show ?thesis by (simp add: refreshAndSelect_first)
  qed
qed

subsection \<open>The runs of importBackup\<close>

lemma importBackup_cases [consumes 2, case_names wipeFiles wipeFolders replayFolders replayFiles finish]:
  assumes "BackupData.folders b = Some fs" and "BackupData.files b = Some xs"
  obtains
    (wipeFiles) t1 e where
      "deleteFiles h (appState.files s) s = (t1, Inl e)"
      "importBackup h sf (Some b) s = (t1, Inl e)"
  | (wipeFolders) t1 s1 t2 e where
      "deleteFiles h (appState.files s) s = (t1, Inr s1)"
      "deleteFolders h (appState.folders s1) s1 = (t2, Inl e)"
      "importBackup h sf (Some b) s = (t1 @ t2, Inl e)"
  | (replayFolders) t1 s1 t2 s2 t3 e where
      "deleteFiles h (appState.files s) s = (t1, Inr s1)"
      "deleteFolders h (appState.folders s1) s1 = (t2, Inr s2)"
      "replayFolders h Map.empty sf s2 = (t3, Inl e)"
      "importBackup h sf (Some b) s = (t1 @ t2 @ t3, Inl e)"
  | (replayFiles) t1 s1 t2 s2 t3 m s3 t4 e where
      "deleteFiles h (appState.files s) s = (t1, Inr s1)"
      "deleteFolders h (appState.folders s1) s1 = (t2, Inr s2)"
      "replayFolders h Map.empty sf s2 = (t3, Inr (m, s3))"
      "replayFiles h m xs s3 = (t4, Inl e)"
      "importBackup h sf (Some b) s = (t1 @ t2 @ t3 @ t4, Inl e)"
  | (finish) t1 s1 t2 s2 t3 m s3 t4 s4 where
      "deleteFiles h (appState.files s) s = (t1, Inr s1)"
      "deleteFolders h (appState.folders s1) s1 = (t2, Inr s2)"
      "replayFolders h Map.empty sf s2 = (t3, Inr (m, s3))"
      "replayFiles h m xs s3 = (t4, Inr s4)"
      "importBackup h sf (Some b) s =
         (t1 @ t2 @ t3 @ t4 @ fst (refreshAndSelect h s4), snd (refreshAndSelect h s4))"
proof -
  obtain t1 r1 where p1: "deleteFiles h (appState.files s) s = (t1, r1)"
    by (cases "deleteFiles h (appState.files s) s")
  show thesis
  proof (cases r1)
    case (Inl e)
    with p1 assms wipeFiles show thesis
      by (simp add: importBackup_def)
  next
    case r1: (Inr s1)
    obtain t2 r2 where p2: "deleteFolders h (appState.folders s1) s1 = (t2, r2)"
      by (cases "deleteFolders h (appState.folders s1) s1")
    show thesis
    proof (cases r2)
      case (Inl e)
      with p1 r1 p2 assms wipeFolders show thesis
        by (simp add: importBackup_def)
    next
      case r2: (Inr s2)
      obtain t3 r3 where p3: "replayFolders h Map.empty sf s2 = (t3, r3)"
        by (cases "replayFolders h Map.empty sf s2")
      show thesis
      proof (cases r3)
        case (Inl e)
        with p1 r1 p2 r2 p3 assms replayFolders show thesis
          by (simp add: importBackup_def)
      next
        case (Inr ms)
        then obtain m s3 where r3: "r3 = Inr (m, s3)"
          by (cases ms) simp
        obtain t4 r4 where p4: "replayFiles h m xs s3 = (t4, r4)"
          by (cases "replayFiles h m xs s3")
        show thesis
        proof (cases r4)
          case (Inl e)
          with p1 r1 p2 r2 p3 r3 p4 assms replayFiles show thesis
            by (simp add: importBackup_def)
        next
          case (Inr s4)
          with p1 r1 p2 r2 p3 r3 p4 assms finish show thesis
            by (simp add: importBackup_def)
        qed
      qed
    qed
  qed
qed

lemma importBackup_rejected:
  "jsonString = None \<or> (\<exists>b. jsonString = Some b \<and> (BackupData.folders b = None \<or> BackupData.files b = None))
   \<Longrightarrow> fst (importBackup h sf jsonString s) = []"
  by (auto simp: importBackup_def split: option.splits)

lemma importBackup_accepted:
  assumes "c \<in> set (fst (importBackup h sf jsonString s))"
  obtains b fs xs where "jsonString = Some b" "BackupData.folders b = Some fs" "BackupData.files b = Some xs"
proof (cases "\<exists>b fs xs. jsonString = Some b \<and> BackupData.folders b = Some fs \<and> BackupData.files b = Some xs")
  case True
  with that show ?thesis by blast
next
  case False
  then have "fst (importBackup h sf jsonString s) = []"
    by (intro importBackup_rejected) (cases jsonString; auto)
  with assms show ?thesis by simp
qed

lemma importBackup_Inr:
  assumes "importBackup h sf jsonString s = (t, Inr s')"
  obtains b fs xs t1 s1 t2 s2 t3 m s3 t4 s4 t5 where
    "jsonString = Some b" "BackupData.folders b = Some fs" "BackupData.files b = Some xs"
    "deleteFiles h (appState.files s) s = (t1, Inr s1)"
    "deleteFolders h (appState.folders s1) s1 = (t2, Inr s2)"
    "replayFolders h Map.empty sf s2 = (t3, Inr (m, s3))"
    "replayFiles h m xs s3 = (t4, Inr s4)"
    "refreshAndSelect h s4 = (t5, Inr s')"
    "t = t1 @ t2 @ t3 @ t4 @ t5"
proof -
  from assms obtain b fs xs where js: "jsonString = Some b"
    and ok: "BackupData.folders b = Some fs" "BackupData.files b = Some xs"
    by (auto simp: importBackup_def split: option.splits)
  from ok show thesis
  proof (cases rule: importBackup_cases [where h = h and s = s and sf = sf])
    case (finish t1 s1 t2 s2 t3 m s3 t4 s4)
    with assms js ok that [of b fs xs t1 s1 t2 s2 t3 m s3 t4 s4 "fst (refreshAndSelect h s4)"]
    show thesis
      by (cases "refreshAndSelect h s4") auto
  qed (use assms js in auto)
qed

lemma importBackup_total:
  assumes "neverThrows h" and "BackupData.folders b = Some fs" and "BackupData.files b = Some xs"
  shows "\<exists>t s'. importBackup h sf (Some b) s = (t, Inr s')"
proof -
  from assms(1) have
    n1: "\<forall>i s. \<not> isl (deleteFile h i s)" and
    n2: "\<forall>i s. \<not> isl (deleteFolder h i s)" and
    n3: "\<forall>nm p s. \<not> isl (createFolder h nm p s)" and
    n4: "\<forall>i s. \<not> isl (toggleFolderOpen h i s)" and
    n5: "\<forall>p t c s. \<not> isl (createFile h p t c s)" and
    n6: "\<forall>s. \<not> isl (refreshData h s)" and
    n7: "\<forall>i s. \<not> isl (selectFile h i s)"
    by (simp_all add: neverThrows_def)
  from deleteFiles_total [OF n1, of "appState.files s" s]
  obtain t1 s1 where p1: "deleteFiles h (appState.files s) s = (t1, Inr s1)"
    by blast
  from deleteFolders_total [OF n2, of "appState.folders s1" s1]
  obtain t2 s2 where p2: "deleteFolders h (appState.folders s1) s1 = (t2, Inr s2)"
    by blast
  from replayFolders_total [OF n3 n4, of Map.empty sf s2]
  obtain t3 m s3 where p3: "replayFolders h Map.empty sf s2 = (t3, Inr (m, s3))"
    by blast
  from replayFiles_total [OF n5, of m xs s3]
  obtain t4 s4 where p4: "replayFiles h m xs s3 = (t4, Inr s4)"
    by blast
  from refreshAndSelect_total [OF n6 n7, of s4]
  obtain t5 s5 where p5: "refreshAndSelect h s4 = (t5, Inr s5)"
    by blast
  from assms(2,3) p1 p2 p3 p4 p5 show ?thesis
    by (simp add: importBackup_def)
qed

lemma importBackup_sorted: "sorted (map phase (fst (importBackup h sf jsonString s)))"
proof (cases "\<exists>b fs xs. jsonString = Some b \<and> BackupData.folders b = Some fs \<and> BackupData.files b = Some xs")
  case False
  then have "fst (importBackup h sf jsonString s) = []"
    by (intro importBackup_rejected) (cases jsonString; auto)
  then show ?thesis by simp
next
  case True
  then obtain b fs xs where js: "jsonString = Some b"
    and ok: "BackupData.folders b = Some fs" "BackupData.files b = Some xs"
    by blast
  have p0: "\<And>s fs. sorted (map phase (fst (deleteFiles h fs s)))"
    by (rule same_phase_sorted [where k = 0]) (rule deleteFiles_calls)
  have p1: "\<And>s fs. sorted (map phase (fst (deleteFolders h fs s)))"
    by (rule same_phase_sorted [where k = 1]) (rule deleteFolders_calls)
  have p2: "\<And>s m fs. sorted (map phase (fst (replayFolders h m fs s)))"
    by (rule same_phase_sorted [where k = 2]) (rule replayFolders_calls)
  have p3: "\<And>s m fs. sorted (map phase (fst (replayFiles h m fs s)))"
    by (rule same_phase_sorted [where k = 3]) (rule replayFiles_calls)
  note p4 = refreshAndSelect_sorted
  from ok show ?thesis
  proof (cases rule: importBackup_cases [where h = h and s = s and sf = sf])
    case (wipeFiles t1 e)
    with p0 [of "appState.files s" s] show ?thesis by (simp add: js)
  next
    case (wipeFolders t1 s1 t2 e)
    with p0 [of "appState.files s" s] p1 [of "appState.folders s1" s1]
      deleteFiles_calls [of _ h "appState.files s" s]
      deleteFolders_calls [of _ h "appState.folders s1" s1]
    show ?thesis by (auto simp: js sorted_append)
  next
    case (replayFolders t1 s1 t2 s2 t3 e)
    with p0 [of "appState.files s" s] p1 [of "appState.folders s1" s1] p2 [of Map.empty sf s2]
      deleteFiles_calls [of _ h "appState.files s" s]
      deleteFolders_calls [of _ h "appState.folders s1" s1]
      replayFolders_calls [of _ h Map.empty sf s2]
    show ?thesis by (auto simp: js sorted_append)
  next
    case (replayFiles t1 s1 t2 s2 t3 m s3 t4 e)
    with p0 [of "appState.files s" s] p1 [of "appState.folders s1" s1] p2 [of Map.empty sf s2]
      p3 [of m xs s3]
      deleteFiles_calls [of _ h "appState.files s" s]
      deleteFolders_calls [of _ h "appState.folders s1" s1]
      replayFolders_calls [of _ h Map.empty sf s2]
      replayFiles_calls [of _ h m xs s3]
    show ?thesis by (auto simp: js sorted_append)
  next
    case (finish t1 s1 t2 s2 t3 m s3 t4 s4)
    with p0 [of "appState.files s" s] p1 [of "appState.folders s1" s1] p2 [of Map.empty sf s2]
      p3 [of m xs s3] p4 [of h s4]
      deleteFiles_calls [of _ h "appState.files s" s]
      deleteFolders_calls [of _ h "appState.folders s1" s1]
      replayFolders_calls [of _ h Map.empty sf s2]
      replayFiles_calls [of _ h m xs s3]
      refreshAndSelect_calls [of _ h s4]
    show ?thesis by (fastforce simp: js sorted_append)
  qed
qed

lemma wipe_completes:
  assumes c: "c \<in> set (fst (importBackup h sf jsonString s))" and ph: "2 \<le> phase c"
  shows "\<exists>s1 s2.
      deleteFiles h (appState.files s) s =
        (map DeleteFile (truthy_ids (map file_id (appState.files s))), Inr s1)
    \<and> deleteFolders h (appState.folders s1) s1 =
        (map DeleteFolder (truthy_ids (map folder_id (appState.folders s1))), Inr s2)
    \<and> filter (\<lambda>c. phase c < 2) (fst (importBackup h sf jsonString s)) =
        map DeleteFile (truthy_ids (map file_id (appState.files s)))
        @ map DeleteFolder (truthy_ids (map folder_id (appState.folders s1)))"
proof -
  from c obtain b fs xs where js: "jsonString = Some b"
    and ok: "BackupData.folders b = Some fs" "BackupData.files b = Some xs"
    by (rule importBackup_accepted)
  from ok show ?thesis
  proof (cases rule: importBackup_cases [where h = h and s = s and sf = sf])
    case (wipeFiles t1 e)
    with c ph js deleteFiles_calls [of c h "appState.files s" s] show ?thesis
      by simp
  next
    case (wipeFolders t1 s1 t2 e)
    with c ph js deleteFiles_calls [of c h "appState.files s" s]
      deleteFolders_calls [of c h "appState.folders s1" s1]
    show ?thesis by auto
  next
    case (replayFolders t1 s1 t2 s2 t3 e)
    have "\<And>d. d \<in> set t3 \<Longrightarrow> 2 \<le> phase d"
      using replayFolders_calls [of _ h Map.empty sf s2] replayFolders(3) by auto
    from wiped_calls [OF replayFolders(1,2) this] replayFolders js
      deleteFiles_done [OF replayFolders(1)] deleteFolders_done [OF replayFolders(2)]
    show ?thesis by simp
  next
    case (replayFiles t1 s1 t2 s2 t3 m s3 t4 e)
    have "\<And>d. d \<in> set (t3 @ t4) \<Longrightarrow> 2 \<le> phase d"
      using replayFolders_calls [of _ h Map.empty sf s2] replayFiles(3)
        replayFiles_calls [of _ h m xs s3] replayFiles(4) by auto
    from wiped_calls [OF replayFiles(1,2) this] replayFiles js
      deleteFiles_done [OF replayFiles(1)] deleteFolders_done [OF replayFiles(2)]
    show ?thesis by simp
  next
    case (finish t1 s1 t2 s2 t3 m s3 t4 s4)
    have "\<And>d. d \<in> set (t3 @ t4 @ fst (refreshAndSelect h s4)) \<Longrightarrow> 2 \<le> phase d"
      using replayFolders_calls [of _ h Map.empty sf s2] finish(3)
        replayFiles_calls [of _ h m xs s3] finish(4) refreshAndSelect_calls [of _ h s4]
      by fastforce
    from wiped_calls [OF finish(1,2) this] finish js
      deleteFiles_done [OF finish(1)] deleteFolders_done [OF finish(2)]
    show ?thesis by simp
  qed
qed

lemma folder_replay_completes:
  assumes c: "c \<in> set (fst (importBackup h sf jsonString s))" and ph: "3 \<le> phase c"
  shows "length (filter isCreateFolder (fst (importBackup h sf jsonString s))) = length sf
     \<and> (\<forall>nm p. CreateFolder nm p None \<notin> set (fst (importBackup h sf jsonString s)))"
proof -
  from c obtain b fs xs where js: "jsonString = Some b"
    and ok: "BackupData.folders b = Some fs" "BackupData.files b = Some xs"
    by (rule importBackup_accepted)
  have other: "filter isCreateFolder t = [] \<and> (\<forall>nm p. CreateFolder nm p None \<notin> set t)"
    if "\<And>d. d \<in> set t \<Longrightarrow> phase d \<noteq> 2" for t
    using that filter_isCreateFolder_none [of t] by fastforce
  from ok show ?thesis
  proof (cases rule: importBackup_cases [where h = h and s = s and sf = sf])
    case (wipeFiles t1 e)
    with c ph js deleteFiles_calls [of c h "appState.files s" s] show ?thesis
      by simp
  next
    case (wipeFolders t1 s1 t2 e)
    with c ph js deleteFiles_calls [of c h "appState.files s" s]
      deleteFolders_calls [of c h "appState.folders s1" s1]
    show ?thesis by auto
  next
    case (replayFolders t1 s1 t2 s2 t3 e)
    with c ph js deleteFiles_calls [of c h "appState.files s" s]
      deleteFolders_calls [of c h "appState.folders s1" s1]
      replayFolders_calls [of c h Map.empty sf s2]
    show ?thesis by auto
  next
    case (replayFiles t1 s1 t2 s2 t3 m s3 t4 e)
    have "filter isCreateFolder t1 = [] \<and> (\<forall>nm p. CreateFolder nm p None \<notin> set t1)"
      using deleteFiles_calls [of _ h "appState.files s" s] replayFiles(1)
      by (intro other) auto
    moreover have "filter isCreateFolder t2 = [] \<and> (\<forall>nm p. CreateFolder nm p None \<notin> set t2)"
      using deleteFolders_calls [of _ h "appState.folders s1" s1] replayFiles(2)
      by (intro other) auto
    moreover have "filter isCreateFolder t4 = [] \<and> (\<forall>nm p. CreateFolder nm p None \<notin> set t4)"
      using replayFiles_calls [of _ h m xs s3] replayFiles(4)
      by (intro other) auto
    ultimately show ?thesis
      using replayFolders_returned [OF replayFiles(3)] replayFiles(5) js by simp
  next
    case (finish t1 s1 t2 s2 t3 m s3 t4 s4)
    have "filter isCreateFolder t1 = [] \<and> (\<forall>nm p. CreateFolder nm p None \<notin> set t1)"
      using deleteFiles_calls [of _ h "appState.files s" s] finish(1)
      by (intro other) auto
    moreover have "filter isCreateFolder t2 = [] \<and> (\<forall>nm p. CreateFolder nm p None \<notin> set t2)"
      using deleteFolders_calls [of _ h "appState.folders s1" s1] finish(2)
      by (intro other) auto
    moreover have "filter isCreateFolder t4 = [] \<and> (\<forall>nm p. CreateFolder nm p None \<notin> set t4)"
      using replayFiles_calls [of _ h m xs s3] finish(4)
      by (intro other) auto
    moreover have "filter isCreateFolder (fst (refreshAndSelect h s4)) = []
        \<and> (\<forall>nm p. CreateFolder nm p None \<notin> set (fst (refreshAndSelect h s4)))"
      using refreshAndSelect_calls [of _ h s4]
      by (intro other) fastforce
    ultimately show ?thesis
      using replayFolders_returned [OF finish(3)] finish(5) js by simp
  qed
qed



subsection \<open>Concrete runs\<close>

lemmas run_simps =
  importBackup_def refreshAndSelect_def await_def awaitCreateFolder_def newParentId_def
  memHelpers_def mem_deleteFile_def mem_deleteFolder_def mem_createFolder_def
  mem_toggleFolderOpen_def mem_createFile_def mem_refreshData_def mem_selectFile_def
  lockedHelpers_def workspace_def aFile_def aFolder_def snapshot_def

lemma neverThrows_memHelpers: "neverThrows memHelpers"
  by (simp add: neverThrows_def memHelpers_def mem_deleteFile_def mem_deleteFolder_def
      mem_createFolder_def mem_toggleFolderOpen_def mem_createFile_def mem_refreshData_def
      mem_selectFile_def)

lemma tree_run:
  "importBackup memHelpers
      [aFolder 1 None ''Root'' True, aFolder 2 (Some 1) ''Docs'' True, aFolder 3 (Some 2) ''Drafts'' False]
      (Some (snapshot [aFolder 3 (Some 2) ''Drafts'' False, aFolder 1 None ''Root'' True, aFolder 2 (Some 1) ''Docs'' True]
                      [aFile 1 (Some 3) ''todo'' ''x'', aFile 2 None ''loose'' ''y'']))
      (workspace [aFolder 1 None ''Old'' True] [aFile 2 (Some 1) ''old'' ''z''] 10)
   = ([DeleteFile 2, DeleteFolder 1,
       CreateFolder ''Root'' None (Some 10), CreateFolder ''Docs'' (Some 10) (Some 11),
       CreateFolder ''Drafts'' (Some 11) (Some 12), ToggleFolderOpen 12,
       CreateFile (Some 12) ''todo'' ''x'', CreateFile None ''loose'' ''y'',
       RefreshData, SelectFile (Some 13)],
      Inr \<lparr>appState.folders = [aFolder 10 None ''Root'' True, aFolder 11 (Some 10) ''Docs'' True, aFolder 12 (Some 11) ''Drafts'' False],
           appState.files = [aFile 13 (Some 12) ''todo'' ''x'', aFile 14 None ''loose'' ''y''],
           activeFileId = Some 13, buffer = ''x'', dirty = False,
           repo = \<lparr>db_folders = [aFolder 10 None ''Root'' True, aFolder 11 (Some 10) ''Docs'' True, aFolder 12 (Some 11) ''Drafts'' False],
                   db_files = [aFile 13 (Some 12) ''todo'' ''x'', aFile 14 None ''loose'' ''y''],
                   next_id = 15\<rparr>\<rparr>)"
  by (simp add: run_simps)



section \<open>The claims about the import\<close>

text \<open>
  C1, as the claim states it, fails. The snapshot has no folder and one file whose
  \<open>folderId\<close> is 99. \<^verbatim>\<open>importBackup\<close> does not fail: it deletes the file and the folder of
  the repository, creates the file of the snapshot with folder \<^verbatim>\<open>null\<close>, and returns.
\<close>

theorem importBackup_accepts_dangling_reference:
  "importBackup memHelpers []
      (Some (snapshot [] [aFile 7 (Some 99) ''note'' ''hi'']))
      (workspace [aFolder 1 None ''Old'' True] [aFile 2 (Some 1) ''old'' ''z''] 3)
   = ([DeleteFile 2, DeleteFolder 1, CreateFile None ''note'' ''hi'', RefreshData, SelectFile (Some 3)],
      Inr \<lparr>appState.folders = [],
           appState.files = [aFile 3 None ''note'' ''hi''],
           activeFileId = Some 3, buffer = ''hi'', dirty = False,
           repo = \<lparr>db_folders = [], db_files = [aFile 3 None ''note'' ''hi''], next_id = 4\<rparr>\<rparr>)"
  by (simp add: run_simps)

text \<open>
  C1, amended. \<^verbatim>\<open>importBackup\<close> validates no reference. For a snapshot with \<open>folders\<close> and
  \<open>files\<close>, replayed over folders of the snapshot, and helpers that do not throw, the run
  completes whatever the files refer to; the wipe has called \<^verbatim>\<open>deleteFile\<close> for every
  cached file and \<^verbatim>\<open>deleteFolder\<close> for every cached folder with a truthy identifier; and
  every file whose \<open>folderId\<close> is the identifier of no folder of the snapshot is created
  with folder \<^verbatim>\<open>null\<close>, with its title and content, at its place among the
  \<^verbatim>\<open>createFile\<close> calls.
\<close>

theorem importBackup_dangling_reference:
  assumes "neverThrows h"
    and "BackupData.folders backup = Some fs" and "BackupData.files backup = Some xs"
    and "set sortedFolders \<subseteq> set fs"
  shows "\<exists>t s' s1.
       importBackup h sortedFolders (Some backup) s = (t, Inr s')
     \<and> snd (deleteFiles h (appState.files s) s) = Inr s1
     \<and> filter (\<lambda>c. phase c < 2) t =
         map DeleteFile (truthy_ids (map file_id (appState.files s)))
         @ map DeleteFolder (truthy_ids (map folder_id (appState.folders s1)))
     \<and> (\<forall>i<length xs. \<forall>old.
           folderId (xs ! i) = Some old \<and> Some old \<notin> folder_id ` set fs
           \<longrightarrow> filter isCreateFile t ! i = CreateFile None (title (xs ! i)) (content (xs ! i)))"
proof -
  from importBackup_total [OF assms(1,2,3), of sortedFolders s]
  obtain t s' where run: "importBackup h sortedFolders (Some backup) s = (t, Inr s')"
    by blast
  from run obtain b fs' xs' t1 s1 t2 s2 t3 m s3 t4 s4 t5 where
    b: "Some backup = Some b" "BackupData.files b = Some xs'" and
    p1: "deleteFiles h (appState.files s) s = (t1, Inr s1)" and
    p2: "deleteFolders h (appState.folders s1) s1 = (t2, Inr s2)" and
    p3: "replayFolders h Map.empty sortedFolders s2 = (t3, Inr (m, s3))" and
    p4: "replayFiles h m xs' s3 = (t4, Inr s4)" and
    p5: "refreshAndSelect h s4 = (t5, Inr s')" and
    t: "t = t1 @ t2 @ t3 @ t4 @ t5"
    by (rule importBackup_Inr)
  from b assms(3) have xs': "xs' = xs" by simp
  have high: "2 \<le> phase c" if "c \<in> set (t3 @ t4 @ t5)" for c
    using that replayFolders_calls [of c h Map.empty sortedFolders s2]
      replayFiles_calls [of c h m xs' s3] refreshAndSelect_calls [of c h s4] p3 p4 p5
    by auto
  have wipe: "filter (\<lambda>c. phase c < 2) t =
         map DeleteFile (truthy_ids (map file_id (appState.files s)))
         @ map DeleteFolder (truthy_ids (map folder_id (appState.folders s1)))"
    unfolding t using wiped_calls [OF p1 p2 high, of "t3 @ t4 @ t5"] by simp
  have "filter isCreateFile t1 = []"
    using deleteFiles_calls [of _ h "appState.files s" s] p1
    by (intro filter_isCreateFile_none) auto
  moreover have "filter isCreateFile t2 = []"
    using deleteFolders_calls [of _ h "appState.folders s1" s1] p2
    by (intro filter_isCreateFile_none) auto
  moreover have "filter isCreateFile t3 = []"
    using replayFolders_calls [of _ h Map.empty sortedFolders s2] p3
    by (intro filter_isCreateFile_none) auto
  moreover have "filter isCreateFile t4 = t4"
    using replayFiles_calls [of _ h m xs' s3] p4
    by (intro filter_isCreateFile_all) auto
  moreover have "filter isCreateFile t5 = []"
    using refreshAndSelect_calls [of _ h s4] p5
    by (intro filter_isCreateFile_none) fastforce
  ultimately have files: "filter isCreateFile t =
      map (\<lambda>f. CreateFile (newParentId m (folderId f)) (title f) (content f)) xs"
    using replayFiles_done [OF p4] by (simp add: t xs')
  have dom: "dom m = folder_id ` set sortedFolders"
    using replayFolders_dom [OF p3] by simp
  have dangling: "\<forall>i<length xs. \<forall>old.
           folderId (xs ! i) = Some old \<and> Some old \<notin> folder_id ` set fs
           \<longrightarrow> filter isCreateFile t ! i = CreateFile None (title (xs ! i)) (content (xs ! i))"
  proof (intro allI impI)
    fix i old
    assume i: "i < length xs"
      and d: "folderId (xs ! i) = Some old \<and> Some old \<notin> folder_id ` set fs"
    with assms(4) dom have "Some old \<notin> dom m"
      by auto
    then have "newParentId m (folderId (xs ! i)) = None"
      using d by (simp add: newParentId_def domIff)
    with i show "filter isCreateFile t ! i = CreateFile None (title (xs ! i)) (content (xs ! i))"
      by (simp add: files)
  qed
  from run p1 wipe dangling show ?thesis
    by (intro exI [of _ t] exI [of _ s'] exI [of _ s1] conjI) simp_all
qed

text \<open>The theorem on the run above: the dangling file is the first file created.\<close>

theorem importBackup_dangling_reference_witness:
  "neverThrows memHelpers
   \<and> BackupData.folders (snapshot [] [aFile 7 (Some 99) ''note'' ''hi'']) = Some []
   \<and> BackupData.files (snapshot [] [aFile 7 (Some 99) ''note'' ''hi'']) = Some [aFile 7 (Some 99) ''note'' ''hi'']
   \<and> set ([] :: folder list) \<subseteq> set []
   \<and> (\<exists>t s' s1.
       importBackup memHelpers [] (Some (snapshot [] [aFile 7 (Some 99) ''note'' ''hi'']))
         (workspace [aFolder 1 None ''Old'' True] [aFile 2 (Some 1) ''old'' ''z''] 3) = (t, Inr s')
     \<and> snd (deleteFiles memHelpers
               (appState.files (workspace [aFolder 1 None ''Old'' True] [aFile 2 (Some 1) ''old'' ''z''] 3))
               (workspace [aFolder 1 None ''Old'' True] [aFile 2 (Some 1) ''old'' ''z''] 3)) = Inr s1
     \<and> filter (\<lambda>c. phase c < 2) t =
         map DeleteFile (truthy_ids (map file_id
           (appState.files (workspace [aFolder 1 None ''Old'' True] [aFile 2 (Some 1) ''old'' ''z''] 3))))
         @ map DeleteFolder (truthy_ids (map folder_id (appState.folders s1)))
     \<and> filter isCreateFile t ! 0 = CreateFile None ''note'' ''hi'')"
proof -
  let ?xs = "[aFile 7 (Some 99) ''note'' ''hi'']"
  let ?s = "workspace [aFolder 1 None ''Old'' True] [aFile 2 (Some 1) ''old'' ''z''] 3"
  have f: "BackupData.folders (snapshot [] ?xs) = Some []"
    and x: "BackupData.files (snapshot [] ?xs) = Some ?xs"
    by (simp_all add: snapshot_def)
  have sub: "set ([] :: folder list) \<subseteq> set []"
    by simp
  have "\<exists>t s' s1.
       importBackup memHelpers [] (Some (snapshot [] ?xs)) ?s = (t, Inr s')
     \<and> snd (deleteFiles memHelpers (appState.files ?s) ?s) = Inr s1
     \<and> filter (\<lambda>c. phase c < 2) t =
         map DeleteFile (truthy_ids (map file_id (appState.files ?s)))
         @ map DeleteFolder (truthy_ids (map folder_id (appState.folders s1)))
     \<and> filter isCreateFile t ! 0 = CreateFile None ''note'' ''hi''"
    using importBackup_dangling_reference [OF neverThrows_memHelpers f x sub, of ?s]
  proof (elim exE conjE)
    fix t s' s1
    assume run: "importBackup memHelpers [] (Some (snapshot [] ?xs)) ?s = (t, Inr s')"
      and wf: "snd (deleteFiles memHelpers (appState.files ?s) ?s) = Inr s1"
      and wipe: "filter (\<lambda>c. phase c < 2) t =
         map DeleteFile (truthy_ids (map file_id (appState.files ?s)))
         @ map DeleteFolder (truthy_ids (map folder_id (appState.folders s1)))"
      and dangling: "\<forall>i<length ?xs. \<forall>old.
           folderId (?xs ! i) = Some old \<and> Some old \<notin> folder_id ` set []
           \<longrightarrow> filter isCreateFile t ! i = CreateFile None (title (?xs ! i)) (content (?xs ! i))"
    from dangling [rule_format, of 0 99]
    have "filter isCreateFile t ! 0 = CreateFile None ''note'' ''hi''"
      by (simp add: aFile_def)
    with run wf wipe show ?thesis
      by (intro exI conjI)
  qed
  with neverThrows_memHelpers f x sub show ?thesis
    by (intro conjI)
qed

text \<open>
  C2, as the claim states it, fails. Folder A (identifier 1) has parent 2 and folder B
  (identifier 2) has parent 1. Replayed in the order A, B, the import terminates and
  completes: A is created at the top level, since the table has no entry for 2 yet, and B
  below the new A.
\<close>

theorem replayFolders_accepts_cycle:
  "importBackup memHelpers
      [aFolder 1 (Some 2) ''A'' True, aFolder 2 (Some 1) ''B'' True]
      (Some (snapshot [aFolder 1 (Some 2) ''A'' True, aFolder 2 (Some 1) ''B'' True] []))
      (workspace [] [] 10)
   = ([CreateFolder ''A'' None (Some 10), CreateFolder ''B'' (Some 10) (Some 11), RefreshData],
      Inr (workspace [aFolder 10 None ''A'' True, aFolder 11 (Some 10) ''B'' True] [] 12))"
  by (simp add: run_simps)

text \<open>
  C2, amended. The replay of the folders is a loop over a list: it terminates on every
  list, cyclic or not, and it fails only when \<^verbatim>\<open>createFolder\<close> or
  \<^verbatim>\<open>toggleFolderOpen\<close> throws. When they do not, it returns after one \<^verbatim>\<open>createFolder\<close>
  call for each folder, and a folder whose \<open>parentId\<close> is the identifier of no folder
  replayed before it (as the first folder of a cycle is, in any order) is created with
  parent \<^verbatim>\<open>null\<close>.
\<close>

theorem replayFolders_never_rejects:
  assumes "\<forall>nm p s. \<not> isl (createFolder h nm p s)" and "\<forall>i s. \<not> isl (toggleFolderOpen h i s)"
  shows "\<exists>t m s'. replayFolders h Map.empty sortedFolders s = (t, Inr (m, s'))
     \<and> length (filter isCreateFolder t) = length sortedFolders
     \<and> (\<forall>i<length sortedFolders. \<forall>p.
           parentId (sortedFolders ! i) = Some p \<and> Some p \<notin> folder_id ` set (take i sortedFolders)
           \<longrightarrow> (\<exists>r. filter isCreateFolder t ! i = CreateFolder (name (sortedFolders ! i)) None r))"
proof -
  from replayFolders_total [OF assms, of Map.empty sortedFolders s]
  obtain t m s' where run: "replayFolders h Map.empty sortedFolders s = (t, Inr (m, s'))"
    by blast
  have "length (filter isCreateFolder t) = length sortedFolders"
    using replayFolders_returned [OF run] by simp
  moreover have "\<forall>i<length sortedFolders. \<forall>p.
           parentId (sortedFolders ! i) = Some p \<and> Some p \<notin> folder_id ` set (take i sortedFolders)
           \<longrightarrow> (\<exists>r. filter isCreateFolder t ! i = CreateFolder (name (sortedFolders ! i)) None r)"
  proof (intro allI impI)
    fix i p
    assume "i < length sortedFolders"
      and "parentId (sortedFolders ! i) = Some p \<and> Some p \<notin> folder_id ` set (take i sortedFolders)"
    then show "\<exists>r. filter isCreateFolder t ! i = CreateFolder (name (sortedFolders ! i)) None r"
      using replayFolders_unseen_parent [OF run, of i p] by simp
  qed
  ultimately show ?thesis
    using run by (intro exI [of _ t] exI [of _ m] exI [of _ s'] conjI)
qed

text \<open>The theorem on the two folders of the cycle above.\<close>

theorem replayFolders_never_rejects_witness:
  "(\<forall>nm p s. \<not> isl (createFolder memHelpers nm p s))
   \<and> (\<forall>i s. \<not> isl (toggleFolderOpen memHelpers i s))
   \<and> (\<exists>t m s'.
         replayFolders memHelpers Map.empty [aFolder 1 (Some 2) ''A'' True, aFolder 2 (Some 1) ''B'' True]
           (workspace [] [] 10) = (t, Inr (m, s'))
       \<and> length (filter isCreateFolder t) = 2
       \<and> (\<exists>r. filter isCreateFolder t ! 0 = CreateFolder ''A'' None r))"
proof -
  let ?sf = "[aFolder 1 (Some 2) ''A'' True, aFolder 2 (Some 1) ''B'' True]"
  have c: "\<forall>nm p s. \<not> isl (createFolder memHelpers nm p s)"
    and g: "\<forall>i s. \<not> isl (toggleFolderOpen memHelpers i s)"
    using neverThrows_memHelpers by (simp_all add: neverThrows_def)
  have "\<exists>t m s'.
         replayFolders memHelpers Map.empty ?sf (workspace [] [] 10) = (t, Inr (m, s'))
       \<and> length (filter isCreateFolder t) = 2
       \<and> (\<exists>r. filter isCreateFolder t ! 0 = CreateFolder ''A'' None r)"
    using replayFolders_never_rejects [OF c g, of ?sf "workspace [] [] 10"]
  proof (elim exE conjE)
    fix t m s'
    assume run: "replayFolders memHelpers Map.empty ?sf (workspace [] [] 10) = (t, Inr (m, s'))"
      and len: "length (filter isCreateFolder t) = length ?sf"
      and unseen: "\<forall>i<length ?sf. \<forall>p.
           parentId (?sf ! i) = Some p \<and> Some p \<notin> folder_id ` set (take i ?sf)
           \<longrightarrow> (\<exists>r. filter isCreateFolder t ! i = CreateFolder (name (?sf ! i)) None r)"
    from unseen [rule_format, of 0 2]
    have "\<exists>r. filter isCreateFolder t ! 0 = CreateFolder ''A'' None r"
      by (simp add: aFolder_def)
    moreover from len have "length (filter isCreateFolder t) = 2"
      by simp
    ultimately show ?thesis
      using run by (intro exI [of _ t] exI [of _ m] exI [of _ s'] conjI)
  qed
  with c g show ?thesis
    by (intro conjI)
qed



text \<open>
  C7, as the claim states it, fails. The repository refuses to delete file 2. The import
  ends with that error after the one call: file 3 and folder 1 are never deleted, and
  nothing but the first error is reported.
\<close>

theorem importBackup_stops_at_failed_delete:
  "importBackup (lockedHelpers [2]) [] (Some (snapshot [] []))
      (workspace [aFolder 1 None ''Old'' True]
                 [aFile 2 (Some 1) ''a'' ''x'', aFile 3 (Some 1) ''b'' ''y''] 4)
   = ([DeleteFile 2], Inl (Error ''delete failed''))"
  by (simp add: run_simps)

text \<open>
  C7, amended. A \<^verbatim>\<open>deleteFile\<close> or \<^verbatim>\<open>deleteFolder\<close> call that throws ends
  \<^verbatim>\<open>importBackup\<close> at once with the error it threw: the calls made are those up to the
  failing one, the items after it are not deleted, and no failure is collected.
\<close>

theorem importBackup_aborts_on_failed_delete:
  assumes "BackupData.folders backup = Some fs" and "BackupData.files backup = Some xs"
  shows "(appState.files s = pre @ f # post \<and> deleteFiles h pre s = (t, Inr s1)
          \<and> file_id f = Some i \<and> i \<noteq> 0 \<and> deleteFile h i s1 = Inl e
          \<longrightarrow> importBackup h sortedFolders (Some backup) s = (t @ [DeleteFile i], Inl e))
       \<and> (deleteFiles h (appState.files s) s = (t1, Inr s2)
          \<and> appState.folders s2 = pre' @ g # post' \<and> deleteFolders h pre' s2 = (t2, Inr s3)
          \<and> folder_id g = Some j \<and> j \<noteq> 0 \<and> deleteFolder h j s3 = Inl e'
          \<longrightarrow> importBackup h sortedFolders (Some backup) s = (t1 @ t2 @ [DeleteFolder j], Inl e'))"
  using assms
  by (auto simp: importBackup_def deleteFiles_append deleteFolders_append await_def)

text \<open>
  The theorem on a refused file, the second of three, and on a refused folder.
\<close>

theorem importBackup_aborts_on_failed_delete_witness:
  "BackupData.folders (snapshot [] []) = Some []
   \<and> BackupData.files (snapshot [] []) = Some []
   \<and> appState.files (workspace [] [aFile 2 None ''a'' ''x'', aFile 3 None ''b'' ''y'', aFile 4 None ''c'' ''z''] 5)
       = [aFile 2 None ''a'' ''x''] @ aFile 3 None ''b'' ''y'' # [aFile 4 None ''c'' ''z'']
   \<and> deleteFiles (lockedHelpers [3]) [aFile 2 None ''a'' ''x'']
         (workspace [] [aFile 2 None ''a'' ''x'', aFile 3 None ''b'' ''y'', aFile 4 None ''c'' ''z''] 5)
       = ([DeleteFile 2],
          Inr \<lparr>appState.folders = [],
               appState.files = [aFile 2 None ''a'' ''x'', aFile 3 None ''b'' ''y'', aFile 4 None ''c'' ''z''],
               activeFileId = None, buffer = [], dirty = False,
               repo = \<lparr>db_folders = [],
                       db_files = [aFile 3 None ''b'' ''y'', aFile 4 None ''c'' ''z''], next_id = 5\<rparr>\<rparr>)
   \<and> file_id (aFile 3 None ''b'' ''y'') = Some 3 \<and> (3::int) \<noteq> 0
   \<and> deleteFile (lockedHelpers [3]) 3
         \<lparr>appState.folders = [],
          appState.files = [aFile 2 None ''a'' ''x'', aFile 3 None ''b'' ''y'', aFile 4 None ''c'' ''z''],
          activeFileId = None, buffer = [], dirty = False,
          repo = \<lparr>db_folders = [],
                  db_files = [aFile 3 None ''b'' ''y'', aFile 4 None ''c'' ''z''], next_id = 5\<rparr>\<rparr>
       = Inl (Error ''delete failed'')
   \<and> importBackup (lockedHelpers [3]) [] (Some (snapshot [] []))
         (workspace [] [aFile 2 None ''a'' ''x'', aFile 3 None ''b'' ''y'', aFile 4 None ''c'' ''z''] 5)
       = ([DeleteFile 2, DeleteFile 3], Inl (Error ''delete failed''))
   \<and> deleteFiles (lockedHelpers [7]) (appState.files (workspace [aFolder 7 None ''Old'' True] [] 8))
         (workspace [aFolder 7 None ''Old'' True] [] 8)
       = ([], Inr (workspace [aFolder 7 None ''Old'' True] [] 8))
   \<and> appState.folders (workspace [aFolder 7 None ''Old'' True] [] 8) = [] @ aFolder 7 None ''Old'' True # []
   \<and> deleteFolders (lockedHelpers [7]) [] (workspace [aFolder 7 None ''Old'' True] [] 8)
       = ([], Inr (workspace [aFolder 7 None ''Old'' True] [] 8))
   \<and> folder_id (aFolder 7 None ''Old'' True) = Some 7 \<and> (7::int) \<noteq> 0
   \<and> deleteFolder (lockedHelpers [7]) 7 (workspace [aFolder 7 None ''Old'' True] [] 8)
       = Inl (Error ''delete failed'')
   \<and> importBackup (lockedHelpers [7]) [] (Some (snapshot [] []))
         (workspace [aFolder 7 None ''Old'' True] [] 8)
       = ([DeleteFolder 7], Inl (Error ''delete failed''))"
proof -
  let ?s = "workspace [] [aFile 2 None ''a'' ''x'', aFile 3 None ''b'' ''y'', aFile 4 None ''c'' ''z''] 5"
  let ?s1 = "\<lparr>appState.folders = [],
          appState.files = [aFile 2 None ''a'' ''x'', aFile 3 None ''b'' ''y'', aFile 4 None ''c'' ''z''],
          activeFileId = None, buffer = [], dirty = False,
          repo = \<lparr>db_folders = [],
                  db_files = [aFile 3 None ''b'' ''y'', aFile 4 None ''c'' ''z''], next_id = 5\<rparr>\<rparr>"
  let ?u = "workspace [aFolder 7 None ''Old'' True] [] 8"
  have f: "BackupData.folders (snapshot [] []) = Some []"
    and x: "BackupData.files (snapshot [] []) = Some []"
    by (simp_all add: snapshot_def)
  have a1: "appState.files ?s = [aFile 2 None ''a'' ''x''] @ aFile 3 None ''b'' ''y'' # [aFile 4 None ''c'' ''z'']"
    by (simp add: workspace_def)
  have a2: "deleteFiles (lockedHelpers [3]) [aFile 2 None ''a'' ''x''] ?s = ([DeleteFile 2], Inr ?s1)"
    by (simp add: run_simps)
  have a3: "file_id (aFile 3 None ''b'' ''y'') = Some 3" and a4: "(3::int) \<noteq> 0"
    by (simp_all add: aFile_def)
  have a5: "deleteFile (lockedHelpers [3]) 3 ?s1 = Inl (Error ''delete failed'')"
    by (simp add: run_simps)
  have b1: "deleteFiles (lockedHelpers [7]) (appState.files ?u) ?u = ([], Inr ?u)"
    by (simp add: run_simps)
  have b2: "appState.folders ?u = [] @ aFolder 7 None ''Old'' True # []"
    by (simp add: workspace_def)
  have b3: "deleteFolders (lockedHelpers [7]) [] ?u = ([], Inr ?u)"
    by simp
  have b4: "folder_id (aFolder 7 None ''Old'' True) = Some 7" and b5: "(7::int) \<noteq> 0"
    by (simp_all add: aFolder_def)
  have b6: "deleteFolder (lockedHelpers [7]) 7 ?u = Inl (Error ''delete failed'')"
    by (simp add: run_simps)
  from importBackup_aborts_on_failed_delete
         [where h = "lockedHelpers [3]" and s = ?s and pre = "[aFile 2 None ''a'' ''x'']"
            and f = "aFile 3 None ''b'' ''y''" and post = "[aFile 4 None ''c'' ''z'']"
            and t = "[DeleteFile 2]" and ?s1.0 = ?s1 and i = 3 and e = "Error ''delete failed''"
            and sortedFolders = "[]",
          OF f x, THEN conjunct1]
    a1 a2 a3 a4 a5
  have r1: "importBackup (lockedHelpers [3]) [] (Some (snapshot [] [])) ?s
       = ([DeleteFile 2, DeleteFile 3], Inl (Error ''delete failed''))"
    by simp
  from importBackup_aborts_on_failed_delete
         [where h = "lockedHelpers [7]" and s = ?u and ?t1.0 = "[]" and ?s2.0 = ?u
            and pre' = "[]" and g = "aFolder 7 None ''Old'' True" and post' = "[]"
            and ?t2.0 = "[]" and ?s3.0 = ?u and j = 7 and e' = "Error ''delete failed''"
            and sortedFolders = "[]",
          OF f x, THEN conjunct2]
    b1 b2 b3 b4 b5 b6
  have r2: "importBackup (lockedHelpers [7]) [] (Some (snapshot [] [])) ?u
       = ([DeleteFolder 7], Inl (Error ''delete failed''))"
    by simp
  from f x a1 a2 a3 a4 a5 r1 b1 b2 b3 b4 b5 b6 r2 show ?thesis
    by (intro conjI)
qed



text \<open>
  C9. In every run the calls are in the order of the steps: every \<^verbatim>\<open>deleteFile\<close>
  before every \<^verbatim>\<open>deleteFolder\<close>, these before every \<^verbatim>\<open>createFolder\<close> and
  \<^verbatim>\<open>toggleFolderOpen\<close>, these before every \<^verbatim>\<open>createFile\<close>, then the refresh and the
  selection. When a run makes any call of the replay, both loops of the wipe have
  returned, having called \<^verbatim>\<open>deleteFile\<close> for every cached file and \<^verbatim>\<open>deleteFolder\<close>
  for every cached folder with a truthy identifier. When a run makes any call of the file
  replay or later, \<^verbatim>\<open>createFolder\<close> has been called for each folder of
  \<open>sortedFolders\<close>, and each of these calls has returned.
\<close>

theorem importBackup_strictly_sequenced:
  "sorted (map phase (fst (importBackup h sortedFolders jsonString s)))
   \<and> ((\<exists>c\<in>set (fst (importBackup h sortedFolders jsonString s)). 2 \<le> phase c) \<longrightarrow>
        (\<exists>s1 s2.
            deleteFiles h (appState.files s) s =
              (map DeleteFile (truthy_ids (map file_id (appState.files s))), Inr s1)
          \<and> deleteFolders h (appState.folders s1) s1 =
              (map DeleteFolder (truthy_ids (map folder_id (appState.folders s1))), Inr s2)
          \<and> filter (\<lambda>c. phase c < 2) (fst (importBackup h sortedFolders jsonString s)) =
              map DeleteFile (truthy_ids (map file_id (appState.files s)))
              @ map DeleteFolder (truthy_ids (map folder_id (appState.folders s1)))))
   \<and> ((\<exists>c\<in>set (fst (importBackup h sortedFolders jsonString s)). 3 \<le> phase c) \<longrightarrow>
        length (filter isCreateFolder (fst (importBackup h sortedFolders jsonString s))) = length sortedFolders
        \<and> (\<forall>nm p. CreateFolder nm p None \<notin> set (fst (importBackup h sortedFolders jsonString s))))"
  using importBackup_sorted [of h sortedFolders jsonString s]
    wipe_completes [of _ h sortedFolders jsonString s]
    folder_replay_completes [of _ h sortedFolders jsonString s]
  by blast

text \<open>The theorem on the run of the tree above.\<close>

theorem importBackup_strictly_sequenced_witness:
  "(\<exists>c\<in>set (fst (importBackup memHelpers
        [aFolder 1 None ''Root'' True, aFolder 2 (Some 1) ''Docs'' True, aFolder 3 (Some 2) ''Drafts'' False]
        (Some (snapshot [aFolder 3 (Some 2) ''Drafts'' False, aFolder 1 None ''Root'' True, aFolder 2 (Some 1) ''Docs'' True]
                        [aFile 1 (Some 3) ''todo'' ''x'', aFile 2 None ''loose'' ''y'']))
        (workspace [aFolder 1 None ''Old'' True] [aFile 2 (Some 1) ''old'' ''z''] 10))). 3 \<le> phase c)
   \<and> sorted (map phase
        [DeleteFile 2, DeleteFolder 1,
         CreateFolder ''Root'' None (Some 10), CreateFolder ''Docs'' (Some 10) (Some 11),
         CreateFolder ''Drafts'' (Some 11) (Some 12), ToggleFolderOpen 12,
         CreateFile (Some 12) ''todo'' ''x'', CreateFile None ''loose'' ''y'',
         RefreshData, SelectFile (Some 13)])
   \<and> (\<exists>s1 :: db appState. [DeleteFile 2, DeleteFolder 1] =
          map DeleteFile (truthy_ids (map file_id
             (appState.files (workspace [aFolder 1 None ''Old'' True] [aFile 2 (Some 1) ''old'' ''z''] 10))))
          @ map DeleteFolder (truthy_ids (map folder_id (appState.folders s1))))
   \<and> length (filter isCreateFolder
        [DeleteFile 2, DeleteFolder 1,
         CreateFolder ''Root'' None (Some 10), CreateFolder ''Docs'' (Some 10) (Some 11),
         CreateFolder ''Drafts'' (Some 11) (Some 12), ToggleFolderOpen 12,
         CreateFile (Some 12) ''todo'' ''x'', CreateFile None ''loose'' ''y'',
         RefreshData, SelectFile (Some 13)]) = 3"
proof -
  let ?sf = "[aFolder 1 None ''Root'' True, aFolder 2 (Some 1) ''Docs'' True, aFolder 3 (Some 2) ''Drafts'' False]"
  let ?b = "snapshot [aFolder 3 (Some 2) ''Drafts'' False, aFolder 1 None ''Root'' True, aFolder 2 (Some 1) ''Docs'' True]
                     [aFile 1 (Some 3) ''todo'' ''x'', aFile 2 None ''loose'' ''y'']"
  let ?s = "workspace [aFolder 1 None ''Old'' True] [aFile 2 (Some 1) ''old'' ''z''] 10"
  let ?t = "[DeleteFile 2, DeleteFolder 1,
         CreateFolder ''Root'' None (Some 10), CreateFolder ''Docs'' (Some 10) (Some 11),
         CreateFolder ''Drafts'' (Some 11) (Some 12), ToggleFolderOpen 12,
         CreateFile (Some 12) ''todo'' ''x'', CreateFile None ''loose'' ''y'',
         RefreshData, SelectFile (Some 13)]"
  have t: "fst (importBackup memHelpers ?sf (Some ?b) ?s) = ?t"
    by (simp add: tree_run)
  have h3: "\<exists>c\<in>set (fst (importBackup memHelpers ?sf (Some ?b) ?s)). 3 \<le> phase c"
    unfolding t by simp
  have h2: "\<exists>c\<in>set (fst (importBackup memHelpers ?sf (Some ?b) ?s)). 2 \<le> phase c"
    unfolding t by simp
  note inst = importBackup_strictly_sequenced [of memHelpers ?sf "Some ?b" ?s]
  from inst have "sorted (map phase (fst (importBackup memHelpers ?sf (Some ?b) ?s)))"
    by (rule conjunct1)
  then have c1: "sorted (map phase ?t)"
    unfolding t .
  have ft: "filter (\<lambda>c. phase c < 2) ?t = [DeleteFile 2, DeleteFolder 1]"
    by simp
  from inst [THEN conjunct2, THEN conjunct1, rule_format, OF h2]
  have c2: "\<exists>s1 :: db appState. [DeleteFile 2, DeleteFolder 1] =
          map DeleteFile (truthy_ids (map file_id (appState.files ?s)))
          @ map DeleteFolder (truthy_ids (map folder_id (appState.folders s1)))"
    unfolding t ft by blast
  from inst [THEN conjunct2, THEN conjunct2, rule_format, OF h3]
  have c3: "length (filter isCreateFolder ?t) = 3"
    unfolding t by simp
  from h3 c1 c2 c3 show ?thesis
    by (intro conjI)
qed

text \<open>
  C10. When the file replay has returned, \<^verbatim>\<open>importBackup\<close> calls \<^verbatim>\<open>refreshData\<close>.
  When that returns the state \<open>s5\<close>, the active file is set to \<^verbatim>\<open>null\<close>, the buffer to
  the empty string and the dirty flag to \<^verbatim>\<open>false\<close>; then, if the refreshed list of
  files is empty, the run ends there with no selection, and otherwise
  \<^verbatim>\<open>selectFile\<close> is called, on that state, with the identifier of the first file of
  the list, and its outcome is the outcome of the import.
\<close>

theorem importBackup_refreshes_and_selects:
  assumes "BackupData.folders backup = Some fs" and "BackupData.files backup = Some xs"
    and "deleteFiles h (appState.files s) s = (t1, Inr s1)"
    and "deleteFolders h (appState.folders s1) s1 = (t2, Inr s2)"
    and "replayFolders h Map.empty sortedFolders s2 = (t3, Inr (m, s3))"
    and "replayFiles h m xs s3 = (t4, Inr s4)"
    and "refreshData h s4 = Inr s5"
  shows "importBackup h sortedFolders (Some backup) s =
     (case appState.files s5 of
        [] \<Rightarrow>
          (t1 @ t2 @ t3 @ t4 @ [RefreshData],
           Inr (s5\<lparr>activeFileId := None, buffer := [], dirty := False\<rparr>))
      | f # _ \<Rightarrow>
          (t1 @ t2 @ t3 @ t4 @ [RefreshData, SelectFile (file_id f)],
           selectFile h (file_id f) (s5\<lparr>activeFileId := None, buffer := [], dirty := False\<rparr>)))"
  using assms
  by (cases "appState.files s5")
     (simp_all add: importBackup_def refreshAndSelect_empty refreshAndSelect_first)

text \<open>The theorem on the import of one file into an empty repository.\<close>

theorem importBackup_refreshes_and_selects_witness:
  "BackupData.folders (snapshot [] [aFile 5 None ''t'' ''c'']) = Some []
   \<and> BackupData.files (snapshot [] [aFile 5 None ''t'' ''c'']) = Some [aFile 5 None ''t'' ''c'']
   \<and> deleteFiles memHelpers (appState.files (workspace [] [] 1)) (workspace [] [] 1)
        = ([], Inr (workspace [] [] 1))
   \<and> deleteFolders memHelpers (appState.folders (workspace [] [] 1)) (workspace [] [] 1)
        = ([], Inr (workspace [] [] 1))
   \<and> replayFolders memHelpers Map.empty [] (workspace [] [] 1)
        = ([], Inr (Map.empty, workspace [] [] 1))
   \<and> replayFiles memHelpers Map.empty [aFile 5 None ''t'' ''c''] (workspace [] [] 1)
        = ([CreateFile None ''t'' ''c''],
           Inr ((workspace [] [] 1)\<lparr>repo := \<lparr>db_folders = [], db_files = [aFile 1 None ''t'' ''c''], next_id = 2\<rparr>\<rparr>))
   \<and> refreshData memHelpers
         ((workspace [] [] 1)\<lparr>repo := \<lparr>db_folders = [], db_files = [aFile 1 None ''t'' ''c''], next_id = 2\<rparr>\<rparr>)
        = Inr (workspace [] [aFile 1 None ''t'' ''c''] 2)
   \<and> importBackup memHelpers [] (Some (snapshot [] [aFile 5 None ''t'' ''c''])) (workspace [] [] 1)
        = ([CreateFile None ''t'' ''c'', RefreshData, SelectFile (Some 1)],
           Inr ((workspace [] [aFile 1 None ''t'' ''c''] 2)\<lparr>activeFileId := Some 1, buffer := ''c''\<rparr>))"
proof -
  let ?b = "snapshot [] [aFile 5 None ''t'' ''c'']"
  let ?s = "workspace [] [] 1"
  let ?s4 = "?s\<lparr>repo := \<lparr>db_folders = [], db_files = [aFile 1 None ''t'' ''c''], next_id = 2\<rparr>\<rparr>"
  let ?s5 = "workspace [] [aFile 1 None ''t'' ''c''] 2"
  have f: "BackupData.folders ?b = Some []" and x: "BackupData.files ?b = Some [aFile 5 None ''t'' ''c'']"
    by (simp_all add: snapshot_def)
  have p1: "deleteFiles memHelpers (appState.files ?s) ?s = ([], Inr ?s)"
    by (simp add: workspace_def)
  have p2: "deleteFolders memHelpers (appState.folders ?s) ?s = ([], Inr ?s)"
    by (simp add: workspace_def)
  have p3: "replayFolders memHelpers Map.empty [] ?s = ([], Inr (Map.empty, ?s))"
    by simp
  have p4: "replayFiles memHelpers Map.empty [aFile 5 None ''t'' ''c''] ?s = ([CreateFile None ''t'' ''c''], Inr ?s4)"
    by (simp add: run_simps)
  have p5: "refreshData memHelpers ?s4 = Inr ?s5"
    by (simp add: run_simps)
  from importBackup_refreshes_and_selects [OF f x p1 p2 p3 p4 p5]
  have r: "importBackup memHelpers [] (Some ?b) ?s
        = ([CreateFile None ''t'' ''c'', RefreshData, SelectFile (Some 1)],
           Inr (?s5\<lparr>activeFileId := Some 1, buffer := ''c''\<rparr>))"
    by (simp add: run_simps)
  from f x p1 p2 p3 p4 p5 r show ?thesis
    by (intro conjI)
qed

end
